theory Spec2Isabelle
  imports Main "HOL-Library.Sublist"
begin

section \<open>Python strings\<close>

text \<open>
  \<^verbatim>\<open>patch.py\<close> reads two HTML files as text, rewrites them with \<^verbatim>\<open>str.replace\<close> and
  \<^verbatim>\<open>re.sub\<close>, and writes them back. A Python \<^verbatim>\<open>str\<close> is a sequence of Unicode code
  points; the literals of the script hold code points beyond 255 (U+2500, U+2713), so a
  string is a list of code points, not of 8-bit characters.
\<close>

type_synonym pystr = "nat list"

definition str :: "string \<Rightarrow> pystr" where
  "str cs = map of_char cs"

text \<open>A triple-quoted literal, line by line: the lines are separated by U+000A.\<close>

fun join_lines :: "pystr list \<Rightarrow> pystr" where
  "join_lines [] = []"
| "join_lines [l] = l"
| "join_lines (l # ls) = l @ 10 # join_lines ls"

subsection \<open>\<^verbatim>\<open>str.replace(old, new)\<close>\<close>

text \<open>
  Without a count, \<^verbatim>\<open>s.replace(old, new)\<close> replaces every occurrence of \<^verbatim>\<open>old\<close>, found
  from left to right and not overlapping. An empty \<^verbatim>\<open>old\<close> matches before every code
  point and at the end.
\<close>

function replace :: "'a list \<Rightarrow> 'a list \<Rightarrow> 'a list \<Rightarrow> 'a list" where
  "replace [] old new = (if old = [] then new else [])"
| "replace (c # cs) old new =
     (if old = [] then new @ c # replace cs old new
      else if prefix old (c # cs) then new @ replace (drop (length old) (c # cs)) old new
      else c # replace cs old new)"
  by pat_completeness auto
termination
  by (relation "measure (\<lambda>(s, old, new). length s)") auto

text \<open>
  The specification's wording of the footer rule, "replace the first literal occurrence":
  \<^verbatim>\<open>s.replace(old, new, 1)\<close>. The script does not call it; it is here to be compared
  with \<^const>\<open>replace\<close>.
\<close>

fun replace_first :: "'a list \<Rightarrow> 'a list \<Rightarrow> 'a list \<Rightarrow> 'a list" where
  "replace_first [] old new = (if old = [] then new else [])"
| "replace_first (c # cs) old new =
     (if prefix old (c # cs) then new @ drop (length old) (c # cs)
      else c # replace_first cs old new)"

text \<open>The number of positions of \<open>s\<close> at which \<open>w\<close> occurs.\<close>

fun occurrences :: "'a list \<Rightarrow> 'a list \<Rightarrow> nat" where
  "occurrences w [] = (if w = [] then 1 else 0)"
| "occurrences w (c # cs) = (if prefix w (c # cs) then 1 else 0) + occurrences w cs"

subsection \<open>\<^verbatim>\<open>re.sub(pattern, repl, string, flags=re.DOTALL)\<close>\<close>

text \<open>
  The two patterns of the script are sequences of literal characters, \<^verbatim>\<open>.\<close> and \<^verbatim>\<open>\s\<close>,
  some of them under \<^verbatim>\<open>*\<close> (greedy) or \<^verbatim>\<open>*?\<close> (lazy). \<^verbatim>\<open>\s\<close> in a \<^verbatim>\<open>str\<close> pattern is
  Unicode white space; \<^verbatim>\<open>.\<close> matches U+000A only under \<^verbatim>\<open>re.DOTALL\<close>.
\<close>

datatype atom = Chr nat | AnyChar | Space

datatype quant = One | Star | StarLazy

type_synonym regex = "(atom \<times> quant) list"

definition is_space :: "nat \<Rightarrow> bool" where
  "is_space c \<longleftrightarrow>
     (9 \<le> c \<and> c \<le> 13) \<or> (28 \<le> c \<and> c \<le> 32) \<or> c = 133 \<or> c = 160 \<or> c = 5760 \<or>
     (8192 \<le> c \<and> c \<le> 8202) \<or> c = 8232 \<or> c = 8233 \<or> c = 8239 \<or> c = 8287 \<or> c = 12288"

fun accepts :: "bool \<Rightarrow> atom \<Rightarrow> nat \<Rightarrow> bool" where
  "accepts dotall (Chr c) x = (x = c)"
| "accepts dotall AnyChar x = (dotall \<or> x \<noteq> 10)"
| "accepts dotall Space x = is_space x"

definition lits :: "pystr \<Rightarrow> regex" where
  "lits w = map (\<lambda>c. (Chr c, One)) w"

text \<open>
  The backtracking matcher, anchored at the head of \<open>s\<close>: the rest of \<open>s\<close> after the
  match that the engine finds first, a greedy star trying the longer repetition before
  the shorter one and a lazy star the shorter one first. \<open>(must_advance, n)\<close> is the
  engine's flag of that name and the length of the text at the position where the
  search started: with the flag set, a match that ends where it started is rejected and
  the engine backtracks.
\<close>

fun match_here :: "bool \<Rightarrow> bool \<times> nat \<Rightarrow> regex \<Rightarrow> pystr \<Rightarrow> pystr option" where
  "match_here dotall (must_advance, n) [] s =
     (if must_advance \<and> length s = n then None else Some s)"
| "match_here dotall st ((a, One) # p) [] = None"
| "match_here dotall st ((a, One) # p) (c # cs) =
     (if accepts dotall a c then match_here dotall st p cs else None)"
| "match_here dotall st ((a, Star) # p) [] = match_here dotall st p []"
| "match_here dotall st ((a, Star) # p) (c # cs) =
     (if accepts dotall a c
      then (case match_here dotall st ((a, Star) # p) cs of
              Some r \<Rightarrow> Some r
            | None \<Rightarrow> match_here dotall st p (c # cs))
      else match_here dotall st p (c # cs))"
| "match_here dotall st ((a, StarLazy) # p) s =
     (case match_here dotall st p s of
        Some r \<Rightarrow> Some r
      | None \<Rightarrow>
          (case s of
             [] \<Rightarrow> None
           | c # cs \<Rightarrow>
               if accepts dotall a c then match_here dotall st ((a, StarLazy) # p) cs
               else None))"

lemma match_here_length:
  "match_here dotall (m, n) p s = Some r \<Longrightarrow> length r \<le> length s \<and> (m \<longrightarrow> length r \<noteq> n)"
proof (induction dotall "(m, n)" p s arbitrary: r rule: match_here.induct)
  case (6 dotall a p s)
  then show ?case
    by (cases s) (fastforce split: option.splits if_splits)+
qed (fastforce split: option.splits if_splits)+

text \<open>
  The substitution loop: search from the current position; a match is replaced and the
  search goes on behind it, and a code point at which nothing matches is copied. After
  an empty match the engine searches again at the same position with
  \<^verbatim>\<open>must_advance\<close> set. The replacement is literal: the two replacement strings of the
  script hold no backslash, so the template has nothing to expand.
\<close>

function re_sub :: "bool \<Rightarrow> regex \<Rightarrow> pystr \<Rightarrow> bool \<Rightarrow> pystr \<Rightarrow> pystr" where
  "re_sub dotall p repl must_advance s =
     (case match_here dotall (must_advance, length s) p s of
        Some r \<Rightarrow>
          repl @ (if length r < length s then re_sub dotall p repl False r
                  else re_sub dotall p repl True s)
      | None \<Rightarrow>
          (case s of
             [] \<Rightarrow> []
           | c # cs \<Rightarrow> c # re_sub dotall p repl False cs))"
  by pat_completeness auto
termination
  by (relation "measures [\<lambda>(d, p, repl, m, s). length s,
                           \<lambda>(d, p, repl, m, s). if m then 0 else 1]")
     (auto dest!: match_here_length)

declare re_sub.simps [simp del]

text \<open>
  The language of a pattern, written without the matcher: the texts that the pattern
  matches from their first to their last code point.
\<close>

fun denotes :: "bool \<Rightarrow> regex \<Rightarrow> pystr \<Rightarrow> bool" where
  "denotes dotall [] m = (m = [])"
| "denotes dotall ((a, One) # p) m =
     (case m of [] \<Rightarrow> False | c # cs \<Rightarrow> accepts dotall a c \<and> denotes dotall p cs)"
| "denotes dotall ((a, q) # p) m =
     (\<exists>k \<in> set [0..<Suc (length m)].
        (\<forall>c \<in> set (take k m). accepts dotall a c) \<and> denotes dotall p (drop k m))"

text \<open>Some part of \<open>s\<close> is in the language of the pattern.\<close>

definition matcher_occurs :: "bool \<Rightarrow> regex \<Rightarrow> pystr \<Rightarrow> bool" where
  "matcher_occurs dotall p s \<longleftrightarrow>
     (\<exists>t \<in> set (suffixes s). \<exists>m \<in> set (prefixes t). denotes dotall p m)"

subsection \<open>Where a rule applies\<close>

text \<open>
  The occurrences that \<^const>\<open>replace\<close> finds cut a text \<open>s\<close> into the texts \<open>us\<close>, each
  in front of an occurrence of \<open>old\<close> and with no occurrence starting inside it, and the
  text \<open>v\<close> behind the last occurrence, which holds none.
\<close>

definition cut_at_occurrences :: "'a list \<Rightarrow> 'a list \<Rightarrow> 'a list list \<Rightarrow> 'a list \<Rightarrow> bool" where
  "cut_at_occurrences old s us v \<longleftrightarrow>
     s = concat (map (\<lambda>u. u @ old) us) @ v \<and>
     (\<forall>u \<in> set us. \<not> sublist old (u @ butlast old)) \<and>
     \<not> sublist old v"

text \<open>
  A block is an opening tag \<open>op\<close>, some text and a closing tag \<open>cl\<close>. A text is cut at its
  blocks into pairs of the text in front of an opening tag (with no opening tag starting
  inside it) and the body up to the first closing tag, and the text \<open>v\<close> behind the last
  block, in which no opening tag is followed by a closing tag.
\<close>

definition block_occurs :: "'a list \<Rightarrow> 'a list \<Rightarrow> 'a list \<Rightarrow> bool" where
  "block_occurs op cl s \<longleftrightarrow>
     (\<exists>t \<in> set (suffixes s). prefix op t \<and> sublist cl (drop (length op) t))"

definition cut_at_blocks ::
  "'a list \<Rightarrow> 'a list \<Rightarrow> 'a list \<Rightarrow> ('a list \<times> 'a list) list \<Rightarrow> 'a list \<Rightarrow> bool" where
  "cut_at_blocks op cl s blocks v \<longleftrightarrow>
     s = concat (map (\<lambda>(pre, body). pre @ op @ body @ cl) blocks) @ v \<and>
     (\<forall>(pre, body) \<in> set blocks.
        \<not> sublist op (pre @ butlast op) \<and> \<not> sublist cl (body @ butlast cl)) \<and>
     \<not> block_occurs op cl v"

section \<open>The script\<close>

subsection \<open>1. Update index.html\<close>

definition new_section :: pystr where
  \<open>new_section = join_lines
    [str ''    <div class="card" style="text-align: center; border: 1px solid rgba(59, 130, 246, 0.3); background: linear-gradient(180deg, rgba(59,130,246,0.08) 0%, rgba(0,0,0,0.2) 100%);">'',
     str ''      <h2>Veien videre</h2>'',
     str ''      <p style="margin-bottom: 24px;">Vi jobber kontinuerlig med '' @ [229] @ str '' forbedre Leksihjelp. Vil du vite mer om v'' @ [229] @ str ''re fremtidsplaner med ny ordbank og smarte anonyme stavekontroller?</p>'',
     str ''      <a href="/fremtidsplaner" class="github-link" style="display: inline-flex; justify-content: center; background: #3b82f6; border-color: #3b82f6; color: #fff; font-weight: 600;">'',
     str ''        <svg viewBox="0 0 24 24" width="20" height="20" fill="none" stroke="currentColor" stroke-width="2" stroke-linecap="round" stroke-linejoin="round" style="margin-right: 6px;"><circle cx="12" cy="12" r="10"/><polyline points="12 6 12 12 16 14"/></svg>'',
     str ''        Se v'' @ [229] @ str ''re fremtidsplaner'',
     str ''      </a>'',
     str ''    </div>'',
     str '''',
     str ''    <footer>'']\<close>

definition patch_index :: "pystr \<Rightarrow> pystr" where
  "patch_index index_content = replace index_content (str ''    <footer>'') new_section"

subsection \<open>2. Update fremtidsplaner.html\<close>

definition new_style :: pystr where
  \<open>new_style = join_lines
    [str ''  <style>'',
     str ''    @import url('https://fonts.googleapis.com/css2?family=Inter:wght@400;500;600;700&display=swap');'',
     str '''',
     str ''    :root {'',
     str ''      --bg-color: #0c0c0e;'',
     str ''      --card-bg: rgba(255, 255, 255, 0.03);'',
     str ''      --card-border: rgba(255, 255, 255, 0.08);'',
     str ''      --text-primary: #f3f4f6;'',
     str ''      --text-secondary: #9ca3af;'',
     str ''      --accent: #3b82f6;'',
     str ''      --accent-hover: #2563eb;'',
     str ''      --success: #10b981;'',
     str ''    }'',
     str '''',
     str ''    * {'',
     str ''      margin: 0;'',
     str ''      padding: 0;'',
     str ''      box-sizing: border-box;'',
     str ''    }'',
     str '''',
     str ''    body {'',
     str ''      font-family: 'Inter', -apple-system, BlinkMacSystemFont, 'Segoe UI', Roboto, Oxygen, Ubuntu, sans-serif;'',
     str ''      background-color: var(--bg-color);'',
     str ''      background-image: radial-gradient(circle at top, rgba(59, 130, 246, 0.08) 0%, transparent 50%);'',
     str ''      min-height: 100vh;'',
     str ''      color: var(--text-primary);'',
     str ''      line-height: 1.6;'',
     str ''      overflow-x: hidden;'',
     str ''      -webkit-font-smoothing: antialiased;'',
     str ''    }'',
     str '''',
     str ''    /* '' @ [9472, 9472] @ str '' Layout '' @ [9472, 9472] @ str '' */'',
     str ''    .container {'',
     str ''      position: relative;'',
     str ''      z-index: 1;'',
     str ''      max-width: 820px;'',
     str ''      margin: 0 auto;'',
     str ''      padding: 60px 20px;'',
     str ''    }'',
     str '''',
     str ''    /* '' @ [9472, 9472] @ str '' Header '' @ [9472, 9472] @ str '' */'',
     str ''    header {'',
     str ''      text-align: center;'',
     str ''      margin-bottom: 60px;'',
     str ''      animation: fadeInDown 0.8s ease-out both;'',
     str ''    }'',
     str '''',
     str ''    .logo {'',
     str ''      font-size: 56px;'',
     str ''      margin-bottom: 20px;'',
     str ''      filter: drop-shadow(0 4px 12px rgba(0,0,0,0.5));'',
     str ''    }'',
     str '''',
     str ''    h1 {'',
     str ''      font-size: 3.5rem;'',
     str ''      font-weight: 700;'',
     str ''      color: #fff;'',
     str ''      margin-bottom: 16px;'',
     str ''      letter-spacing: -0.04em;'',
     str ''      line-height: 1.1;'',
     str ''    }'',
     str '''',
     str ''    .tagline {'',
     str ''      font-size: 1.25rem;'',
     str ''      color: var(--text-secondary);'',
     str ''      max-width: 500px;'',
     str ''      margin: 0 auto;'',
     str ''    }'',
     str '''',
     str ''    .back-link {'',
     str ''      display: inline-flex;'',
     str ''      align-items: center;'',
     str ''      gap: 10px;'',
     str ''      color: var(--text-primary);'',
     str ''      text-decoration: none;'',
     str ''      font-size: 0.95rem;'',
     str ''      padding: 10px 20px;'',
     str ''      background: rgba(255, 255, 255, 0.05);'',
     str ''      border: 1px solid var(--card-border);'',
     str ''      border-radius: 20px;'',
     str ''      transition: all 0.2s;'',
     str ''      font-weight: 500;'',
     str ''      margin-top: 32px;'',
     str ''    }'',
     str '''',
     str ''    .back-link:hover {'',
     str ''      background: rgba(255, 255, 255, 0.1);'',
     str ''      transform: translateY(-1px);'',
     str ''    }'',
     str '''',
     str ''    /* '' @ [9472, 9472] @ str '' Glassmorphism cards '' @ [9472, 9472] @ str '' */'',
     str ''    .glass {'',
     str ''      background: var(--card-bg);'',
     str ''      border: 1px solid var(--card-border);'',
     str ''      backdrop-filter: blur(12px);'',
     str ''      border-radius: 16px;'',
     str ''      padding: 32px;'',
     str ''      margin-bottom: 24px;'',
     str ''      box-shadow: 0 4px 24px rgba(0, 0, 0, 0.2);'',
     str ''      transition: transform 0.2s ease, box-shadow 0.2s ease;'',
     str ''    }'',
     str '''',
     str ''    .glass:hover {'',
     str ''      box-shadow: 0 8px 32px rgba(0, 0, 0, 0.3);'',
     str ''      border-color: rgba(255, 255, 255, 0.12);'',
     str ''    }'',
     str '''',
     str ''    /* '' @ [9472, 9472] @ str '' Scroll reveal animation '' @ [9472, 9472] @ str '' */'',
     str ''    .reveal {'',
     str ''      opacity: 0;'',
     str ''      transform: translateY(20px);'',
     str ''      transition: opacity 0.6s ease-out, transform 0.6s ease-out;'',
     str ''    }'',
     str '''',
     str ''    .reveal.visible {'',
     str ''      opacity: 1;'',
     str ''      transform: translateY(0);'',
     str ''    }'',
     str '''',
     str ''    .stagger { opacity: 0; transform: translateY(12px); }'',
     str ''    .reveal.visible .stagger { animation: staggerIn 0.5s ease-out both; }'',
     str ''    .reveal.visible .stagger:nth-child(1) { animation-delay: 0.1s; }'',
     str ''    .reveal.visible .stagger:nth-child(2) { animation-delay: 0.18s; }'',
     str ''    .reveal.visible .stagger:nth-child(3) { animation-delay: 0.26s; }'',
     str ''    .reveal.visible .stagger:nth-child(4) { animation-delay: 0.34s; }'',
     str ''    .reveal.visible .stagger:nth-child(5) { animation-delay: 0.42s; }'',
     str ''    .reveal.visible .stagger:nth-child(6) { animation-delay: 0.50s; }'',
     str '''',
     str ''    @keyframes staggerIn {'',
     str ''      to { opacity: 1; transform: translateY(0); }'',
     str ''    }'',
     str '''',
     str ''    @keyframes fadeInDown {'',
     str ''      from { opacity: 0; transform: translateY(-20px); }'',
     str ''      to { opacity: 1; transform: translateY(0); }'',
     str ''    }'',
     str '''',
     str ''    /* '' @ [9472, 9472] @ str '' Typography '' @ [9472, 9472] @ str '' */'',
     str ''    h2 {'',
     str ''      font-size: 1.5rem;'',
     str ''      font-weight: 600;'',
     str ''      margin-bottom: 24px;'',
     str ''      letter-spacing: -0.02em;'',
     str ''      color: #fff;'',
     str ''      display: flex;'',
     str ''      align-items: center;'',
     str ''      gap: 8px;'',
     str ''    }'',
     str '''',
     str ''    h3 {'',
     str ''      font-size: 1.1rem;'',
     str ''      margin-bottom: 12px;'',
     str ''      color: #fff;'',
     str ''      font-weight: 500;'',
     str ''    }'',
     str '''',
     str ''    p {'',
     str ''      color: var(--text-secondary);'',
     str ''      margin-bottom: 16px;'',
     str ''    }'',
     str '''',
     str ''    /* '' @ [9472, 9472] @ str '' Phase labels '' @ [9472, 9472] @ str '' */'',
     str ''    .phase-label {'',
     str ''      display: inline-block;'',
     str ''      font-size: 0.75rem;'',
     str ''      font-weight: 600;'',
     str ''      padding: 6px 14px;'',
     str ''      border-radius: 20px;'',
     str ''      margin-bottom: 24px;'',
     str ''      letter-spacing: 0.05em;'',
     str ''      text-transform: uppercase;'',
     str ''      background: rgba(255, 255, 255, 0.05);'',
     str ''      border: 1px solid var(--card-border);'',
     str ''      color: var(--text-secondary);'',
     str ''    }'',
     str '''',
     str ''    /* '' @ [9472, 9472] @ str '' Language grid '' @ [9472, 9472] @ str '' */'',
     str ''    .lang-grid {'',
     str ''      display: grid;'',
     str ''      grid-template-columns: repeat(3, 1fr);'',
     str ''      gap: 16px;'',
     str ''      margin: 32px 0;'',
     str ''    }'',
     str '''',
     str ''    .lang-card {'',
     str ''      background: rgba(0, 0, 0, 0.2);'',
     str ''      padding: 24px 16px;'',
     str ''      border-radius: 12px;'',
     str ''      text-align: center;'',
     str ''      border: 1px solid var(--card-border);'',
     str ''      transition: all 0.2s;'',
     str ''    }'',
     str '''',
     str ''    .lang-card:hover {'',
     str ''      background: rgba(255, 255, 255, 0.05);'',
     str ''      transform: translateY(-2px);'',
     str ''    }'',
     str '''',
     str ''    .lang-card .flag {'',
     str ''      font-size: 2.2rem;'',
     str ''      margin-bottom: 12px;'',
     str ''      filter: drop-shadow(0 2px 8px rgba(0,0,0,0.2));'',
     str ''    }'',
     str '''',
     str ''    .lang-card .name {'',
     str ''      font-weight: 500;'',
     str ''      font-size: 0.95rem;'',
     str ''      color: var(--text-primary);'',
     str ''    }'',
     str '''',
     str ''    .lang-card .code {'',
     str ''      font-size: 0.75rem;'',
     str ''      color: var(--text-secondary);'',
     str ''      margin-top: 4px;'',
     str ''      font-family: 'SF Mono', Menlo, Monaco, Consolas, monospace;'',
     str ''    }'',
     str '''',
     str ''    /* '' @ [9472, 9472] @ str '' List items '' @ [9472, 9472] @ str '' */'',
     str ''    ul {'',
     str ''      list-style: none;'',
     str ''      padding: 0;'',
     str ''    }'',
     str '''',
     str ''    li {'',
     str ''      padding: 8px 0;'',
     str ''      position: relative;'',
     str ''      color: var(--text-secondary);'',
     str ''      font-size: 0.95rem;'',
     str ''    }'',
     str '''',
     str ''    .roadmap-item {'',
     str ''      padding-left: 28px;'',
     str ''    }'',
     str '''',
     str ''    .roadmap-item::before {'',
     str ''      content: "'' @ [10003] @ str ''";'',
     str ''      position: absolute;'',
     str ''      left: 0;'',
     str ''      color: var(--success);'',
     str ''      font-weight: bold;'',
     str ''      font-size: 1.1rem;'',
     str ''    }'',
     str '''',
     str ''    /* '' @ [9472, 9472] @ str '' Highlight / info boxes '' @ [9472, 9472] @ str '' */'',
     str ''    .highlight-box, .privacy-box {'',
     str ''      background: rgba(0, 0, 0, 0.2);'',
     str ''      border: 1px solid var(--card-border);'',
     str ''      border-radius: 12px;'',
     str ''      padding: 24px;'',
     str ''      margin: 32px 0;'',
     str ''      position: relative;'',
     str ''    }'',
     str '''',
     str ''    .highlight-box h3, .privacy-box h3 {'',
     str ''      color: #fff;'',
     str ''    }'',
     str '''',
     str ''    /* '' @ [9472, 9472] @ str '' Diagram '' @ [9472, 9472] @ str '' */'',
     str ''    .diagram {'',
     str ''      background: rgba(0, 0, 0, 0.3);'',
     str ''      border-radius: 12px;'',
     str ''      padding: 24px;'',
     str ''      margin: 32px 0;'',
     str ''      font-family: 'SF Mono', Menlo, Monaco, Consolas, monospace;'',
     str ''      font-size: 0.85rem;'',
     str ''      line-height: 1.8;'',
     str ''      color: var(--text-secondary);'',
     str ''      overflow-x: auto;'',
     str ''      white-space: pre;'',
     str ''      border: 1px solid var(--card-border);'',
     str ''    }'',
     str '''',
     str ''    .diagram .keyword {'',
     str ''      color: var(--accent);'',
     str ''    }'',
     str '''',
     str ''    .diagram .value {'',
     str ''      color: var(--success);'',
     str ''    }'',
     str '''',
     str ''    .diagram .comment {'',
     str ''      color: rgba(255, 255, 255, 0.3);'',
     str ''    }'',
     str '''',
     str ''    /* '' @ [9472, 9472] @ str '' Vision card accent '' @ [9472, 9472] @ str '' */'',
     str ''    .vision-card {'',
     str ''      position: relative;'',
     str ''      overflow: hidden;'',
     str ''      border: 1px solid rgba(59, 130, 246, 0.3);'',
     str ''      background: linear-gradient(180deg, rgba(59,130,246,0.08) 0%, rgba(0,0,0,0.2) 100%);'',
     str ''    }'',
     str '''',
     str ''    /* '' @ [9472, 9472] @ str '' Footer '' @ [9472, 9472] @ str '' */'',
     str ''    footer {'',
     str ''      text-align: center;'',
     str ''      margin-top: 60px;'',
     str ''      padding: 32px 20px;'',
     str ''      border-top: 1px solid var(--card-border);'',
     str ''      color: var(--text-secondary);'',
     str ''      font-size: 0.9rem;'',
     str ''      animation: fadeInDown 0.8s ease-out 0.3s both;'',
     str ''    }'',
     str '''',
     str ''    footer a {'',
     str ''      color: var(--text-primary);'',
     str ''      text-decoration: none;'',
     str ''      transition: color 0.2s;'',
     str ''    }'',
     str '''',
     str ''    footer a:hover {'',
     str ''      color: var(--accent);'',
     str ''    }'',
     str '''',
     str ''    .footer-legal {'',
     str ''      margin-top: 16px;'',
     str ''      font-size: 0.8rem;'',
     str ''      color: rgba(255, 255, 255, 0.3);'',
     str ''      line-height: 1.6;'',
     str ''      max-width: 600px;'',
     str ''      margin-left: auto;'',
     str ''      margin-right: auto;'',
     str ''    }'',
     str '''',
     str ''    /* '' @ [9472, 9472] @ str '' Responsive '' @ [9472, 9472] @ str '' */'',
     str ''    @media (max-width: 768px) {'',
     str ''      h1 {'',
     str ''        font-size: 2.5rem;'',
     str ''      }'',
     str ''      .container {'',
     str ''        padding: 40px 16px;'',
     str ''      }'',
     str ''      .lang-grid {'',
     str ''        grid-template-columns: repeat(2, 1fr);'',
     str ''        gap: 12px;'',
     str ''      }'',
     str ''      .lang-card {'',
     str ''        padding: 16px 12px;'',
     str ''      }'',
     str ''      .diagram {'',
     str ''        font-size: 0.75rem;'',
     str ''        padding: 16px;'',
     str ''      }'',
     str ''    }'',
     str ''    '',
     str ''    @media (max-width: 480px) {'',
     str ''      .lang-grid {'',
     str ''        grid-template-columns: 1fr;'',
     str ''      }'',
     str ''    }'',
     str ''  </style>'']\<close>

text \<open>\<^verbatim>\<open><style>.*?</style>\<close>\<close>

definition style_pattern :: regex where
  "style_pattern = lits (str ''<style>'') @ [(AnyChar, StarLazy)] @ lits (str ''</style>'')"

definition bg_elements_pattern :: regex where
  \<open>bg_elements_pattern =
     lits (str ''<!-- Animated background -->'') @ [(Space, Star)] @
     lits (str ''<div class="bg-gradient"></div>'') @ [(Space, Star)] @
     lits (str ''<div class="bg-orb bg-orb-1"></div>'') @ [(Space, Star)] @
     lits (str ''<div class="bg-orb bg-orb-2"></div>'') @ [(Space, Star)] @
     lits (str ''<div class="bg-orb bg-orb-3"></div>'')\<close>

definition old_link_style :: pystr where
  \<open>old_link_style = str ''style="color:#a78bfa;text-decoration:none;border-bottom:1px solid rgba(167,139,250,0.3);transition:border-color 0.2s;"''\<close>

definition new_link_style :: pystr where
  \<open>new_link_style = str ''style="color:#3b82f6;text-decoration:none;border-bottom:1px solid rgba(59,130,246,0.3);transition:border-color 0.2s;"''\<close>

definition old_p_tag :: pystr where
  \<open>old_p_tag = str ''<p style="margin-bottom:0;">''\<close>

definition new_p_tag :: pystr where
  \<open>new_p_tag = str ''<p style="margin-bottom:0;color:var(--text-secondary);">''\<close>

text \<open>The four rules of the second file, one by one, and in the order of the script.\<close>

definition sub_style :: "pystr \<Rightarrow> pystr" where
  "sub_style c = re_sub True style_pattern new_style False c"

definition remove_bg_elements :: "pystr \<Rightarrow> pystr" where
  "remove_bg_elements c = re_sub True bg_elements_pattern [] False c"

definition replace_link_style :: "pystr \<Rightarrow> pystr" where
  "replace_link_style c = replace c old_link_style new_link_style"

definition replace_p_tag :: "pystr \<Rightarrow> pystr" where
  "replace_p_tag c = replace c old_p_tag new_p_tag"

definition patch_fremtidsplaner :: "pystr \<Rightarrow> pystr" where
  "patch_fremtidsplaner fremtidsplaner_content =
     replace_p_tag (replace_link_style (remove_bg_elements (sub_style fremtidsplaner_content)))"

text \<open>Both files at once: what one run makes of the two contents.\<close>

definition patch_contents :: "pystr \<times> pystr \<Rightarrow> pystr \<times> pystr" where
  "patch_contents ab = (patch_index (fst ab), patch_fremtidsplaner (snd ab))"

subsection \<open>The files\<close>











section \<open>Properties of the string operations\<close>

subsection \<open>\<^verbatim>\<open>str.replace\<close>: the first occurrence\<close>

lemma prefix_before_sublist:
  assumes "prefix w (pre @ w @ rest)" and "pre \<noteq> []"
  shows "sublist w (pre @ butlast w)"
proof (cases "w = []")
  case True
  then show ?thesis by simp
next
  case False
  from assms(2) have len: "length w \<le> length (pre @ butlast w)"
    by (cases pre) auto
  have split: "pre @ w @ rest = (pre @ butlast w) @ (last w # rest)"
    using False by simp
  from assms(1) have "w = take (length w) (pre @ w @ rest)"
    by (metis append_eq_conv_conj prefix_def)
  also have "\<dots> = take (length w) (pre @ butlast w)"
    unfolding split using len by (simp only: take_append) simp
  finally have "prefix w (pre @ butlast w)"
    by (metis take_is_prefix)
  then show ?thesis by blast
qed

lemma replace_unchanged:
  "\<not> sublist old s \<Longrightarrow> replace s old new = s"
proof (induction s)
  case Nil
  then show ?case by auto
next
  case (Cons c cs)
  from Cons.prems have "old \<noteq> []" by auto
  moreover from Cons.prems have "\<not> prefix old (c # cs)" by auto
  moreover from Cons.prems have "\<not> sublist old cs"
    by (auto simp: sublist_Cons_right)
  ultimately show ?case using Cons.IH by simp
qed

lemma replace_at_occurrence:
  "old \<noteq> [] \<Longrightarrow> replace (old @ rest) old new = new @ replace rest old new"
  by (cases old) auto

lemma replace_first_occurrence:
  "\<not> sublist old (pre @ butlast old) \<Longrightarrow>
   replace (pre @ old @ rest) old new = pre @ new @ replace rest old new"
proof (induction pre)
  case Nil
  then have "old \<noteq> []" by auto
  then show ?case by (simp add: replace_at_occurrence)
next
  case (Cons c pre)
  from Cons.prems have ne: "old \<noteq> []" by auto
  from Cons.prems have np: "\<not> prefix old ((c # pre) @ old @ rest)"
    using prefix_before_sublist [of old "c # pre" rest] by blast
  from Cons.prems have "\<not> sublist old (pre @ butlast old)"
    by (auto simp: sublist_Cons_right)
  with Cons.IH ne np show ?case by simp
qed

subsection \<open>Counting occurrences\<close>

lemma occurrences_pos_iff: "0 < occurrences w s \<longleftrightarrow> sublist w s"
  by (induction s) (auto simp: sublist_Cons_right)

lemma occurrences_append_ge: "occurrences w ys \<le> occurrences w (xs @ ys)"
  by (induction xs) auto

lemma prefix_append_notin:
  assumes "c \<notin> set w"
  shows "prefix w (xs @ c # ys) \<longleftrightarrow> prefix w xs"
proof
  assume "prefix w (xs @ c # ys)"
  then consider "prefix w xs" | us where "w = xs @ us" "prefix us (c # ys)"
    by (auto simp: prefix_append)
  then show "prefix w xs"
  proof cases
    case 1
    then show ?thesis .
  next
    case 2
    with assms have "us = []" by (cases us) auto
    with 2 show ?thesis by simp
  qed
next
  assume "prefix w xs"
  then show "prefix w (xs @ c # ys)" by (rule prefix_prefix)
qed

lemma occurrences_split:
  assumes "c \<notin> set w" and "w \<noteq> []"
  shows "occurrences w (xs @ c # ys) = occurrences w xs + occurrences w ys"
proof (induction xs)
  case Nil
  from assms have "\<not> prefix w (c # ys)" by (cases w) auto
  with assms show ?case by simp
next
  case (Cons x xs)
  have "prefix w (x # xs @ c # ys) \<longleftrightarrow> prefix w (x # xs)"
    using prefix_append_notin [OF assms(1), of "x # xs" ys] by simp
  with Cons.IH show ?case by simp
qed

lemma occurrences_replicate:
  assumes "c \<notin> set w" and "w \<noteq> []"
  shows "occurrences w (replicate k c @ ys) = occurrences w ys"
proof (induction k)
  case 0
  show ?case by simp
next
  case (Suc k)
  have "occurrences w (replicate (Suc k) c @ ys) = occurrences w ([] @ c # (replicate k c @ ys))"
    by simp
  also have "\<dots> = occurrences w (replicate k c @ ys)"
    using assms by (subst occurrences_split) simp_all
  finally show ?case using Suc.IH by simp
qed

text \<open>
  Inserting a block in front of every occurrence of an indented word neither adds nor
  removes an occurrence of the word, when the block starts with the indentation
  character and does not hold the word, and the word does not hold that character.
\<close>

lemma occurrences_replace_indented:
  assumes c: "c \<notin> set w" and w: "w \<noteq> []"
    and old: "old = replicate (Suc k) c @ w"
    and new: "new = c # b @ old"
    and b: "occurrences w b = 0"
  shows "c \<notin> set u \<Longrightarrow> occurrences w (u @ replace s old new) = occurrences w (u @ s)"
proof (induction "length s" arbitrary: s u rule: less_induct)
  case less
  from old have ne: "old \<noteq> []" by simp
  have indent: "occurrences w (v @ old @ zs) = occurrences w v + occurrences w (w @ zs)" for v zs
  proof -
    have "occurrences w (v @ old @ zs) = occurrences w (v @ c # (replicate k c @ w @ zs))"
      by (simp add: old)
    also have "\<dots> = occurrences w v + occurrences w (replicate k c @ w @ zs)"
      using c w by (rule occurrences_split)
    also have "occurrences w (replicate k c @ w @ zs) = occurrences w (w @ zs)"
      using c w by (rule occurrences_replicate)
    finally show ?thesis .
  qed
  show ?case
  proof (cases s)
    case Nil
    with ne show ?thesis by simp
  next
    case (Cons x xs)
    consider (hit) "prefix old s" | (indent) "\<not> prefix old s" "x = c"
      | (other) "\<not> prefix old s" "x \<noteq> c"
      by blast
    then show ?thesis
    proof cases
      case hit
      then obtain rest where s: "s = old @ rest"
        by (auto simp: prefix_def)
      with ne have shorter: "length rest < length s" by simp
      have "occurrences w (u @ replace s old new) =
            occurrences w (u @ c # (b @ old @ replace rest old new))"
        by (simp add: s replace_at_occurrence [OF ne] new)
      also have "\<dots> = occurrences w u + occurrences w (b @ old @ replace rest old new)"
        using c w by (rule occurrences_split)
      also have "occurrences w (b @ old @ replace rest old new) =
                 occurrences w (w @ replace rest old new)"
        by (simp add: indent b)
      also have "occurrences w (w @ replace rest old new) = occurrences w (w @ rest)"
        using less.hyps [OF shorter c] .
      also have "occurrences w u + occurrences w (w @ rest) = occurrences w (u @ old @ rest)"
        by (simp add: indent)
      finally show ?thesis by (simp add: s)
    next
      case indent
      have "occurrences w (u @ replace s old new) = occurrences w (u @ c # replace xs old new)"
        using indent ne by (simp add: Cons)
      also have "\<dots> = occurrences w u + occurrences w ([] @ replace xs old new)"
        using c w by (simp add: occurrences_split)
      also have "occurrences w ([] @ replace xs old new) = occurrences w ([] @ xs)"
        by (rule less.hyps) (simp_all add: Cons)
      also have "occurrences w u + occurrences w ([] @ xs) = occurrences w (u @ c # xs)"
        using c w by (simp add: occurrences_split)
      finally show ?thesis by (simp add: Cons indent)
    next
      case other
      have "occurrences w (u @ replace s old new) =
            occurrences w ((u @ [x]) @ replace xs old new)"
        using other ne by (simp add: Cons)
      also have "\<dots> = occurrences w ((u @ [x]) @ xs)"
        by (rule less.hyps) (use other less.prems in \<open>simp_all add: Cons\<close>)
      finally show ?thesis by (simp add: Cons)
    qed
  qed
qed

subsection \<open>Literals\<close>

lemma str_Nil: "str [] = []" and str_Cons: "str (c # cs) = of_char c # str cs"
  by (simp_all add: str_def)

subsection \<open>The matcher\<close>

lemma match_here_plain:
  "\<not> m \<or> length s < n \<Longrightarrow> match_here d (m, n) p s = match_here d (False, 0) p s"
proof (induction d "(m, n)" p s rule: match_here.induct)
  case (6 dotall a p s)
  then show ?case by (cases s) (auto split: option.splits)
qed (auto split: option.splits)

lemma match_here_lits:
  "match_here d st (lits w @ p) s =
     (if prefix w s then match_here d st p (drop (length w) s) else None)"
proof (induction w arbitrary: s)
  case Nil
  show ?case by (simp add: lits_def)
next
  case (Cons c w)
  then show ?case by (cases s) (auto simp: lits_def)
qed

lemma denotes_star:
  "q \<noteq> One \<Longrightarrow>
   denotes d ((a, q) # p) m \<longleftrightarrow>
     (\<exists>k \<in> set [0..<Suc (length m)].
        (\<forall>c \<in> set (take k m). accepts d a c) \<and> denotes d p (drop k m))"
  by (cases q) simp_all

lemma denotes_star_iff:
  assumes "q \<noteq> One"
  shows "denotes d ((a, q) # p) m \<longleftrightarrow>
     (\<exists>u v. m = u @ v \<and> (\<forall>c \<in> set u. accepts d a c) \<and> denotes d p v)"
proof
  assume "denotes d ((a, q) # p) m"
  then have "\<exists>k. (\<forall>c \<in> set (take k m). accepts d a c) \<and> denotes d p (drop k m)"
    unfolding denotes_star [OF assms] by blast
  then show "\<exists>u v. m = u @ v \<and> (\<forall>c \<in> set u. accepts d a c) \<and> denotes d p v"
    by (metis append_take_drop_id)
next
  assume "\<exists>u v. m = u @ v \<and> (\<forall>c \<in> set u. accepts d a c) \<and> denotes d p v"
  then obtain u v where "m = u @ v" "\<forall>c \<in> set u. accepts d a c" "denotes d p v"
    by blast
  then have "length u \<in> set [0..<Suc (length m)] \<and>
      (\<forall>c \<in> set (take (length u) m). accepts d a c) \<and> denotes d p (drop (length u) m)"
    by simp
  then show "denotes d ((a, q) # p) m"
    unfolding denotes_star [OF assms] by blast
qed

lemma denotes_star_skip:
  "q \<noteq> One \<Longrightarrow> denotes d p t \<Longrightarrow> denotes d ((a, q) # p) t"
  by (subst denotes_star_iff) (auto intro: exI [of _ "[]"])

lemma denotes_star_more:
  assumes "q \<noteq> One" and "accepts d a c" and "denotes d ((a, q) # p) t"
  shows "denotes d ((a, q) # p) (c # t)"
proof -
  from assms(1,3) obtain u v where "t = u @ v" "\<forall>x \<in> set u. accepts d a x" "denotes d p v"
    by (auto simp: denotes_star_iff)
  with assms(2) have "c # t = (c # u) @ v \<and> (\<forall>x \<in> set (c # u). accepts d a x) \<and> denotes d p v"
    by simp
  then show ?thesis
    using assms(1) by (subst denotes_star_iff) blast+
qed

lemma match_here_sound:
  "match_here d (m, n) p s = Some r \<Longrightarrow> \<exists>t. s = t @ r \<and> denotes d p t"
proof (induction d "(m, n)" p s arbitrary: r rule: match_here.induct)
  case (1 dotall s)
  then show ?case by (auto split: if_splits)
next
  case (2 dotall a p)
  then show ?case by simp
next
  case (3 dotall a p c cs)
  then have "accepts dotall a c" and "match_here dotall (m, n) p cs = Some r"
    by (auto split: if_splits)
  with 3 obtain t where "cs = t @ r" "denotes dotall p t" by blast
  with \<open>accepts dotall a c\<close> have "c # cs = (c # t) @ r \<and> denotes dotall ((a, One) # p) (c # t)"
    by simp
  then show ?case by blast
next
  case (4 dotall a p)
  then obtain t where "[] = t @ r" "denotes dotall p t" by auto
  then show ?case by (auto intro: denotes_star_skip simp del: denotes.simps)
next
  case (5 dotall a p c cs)
  show ?case
  proof (cases "accepts dotall a c \<and> match_here dotall (m, n) ((a, Star) # p) cs \<noteq> None")
    case True
    with "5.prems" have "match_here dotall (m, n) ((a, Star) # p) cs = Some r"
      by auto
    with "5.hyps"(1) True obtain t where "cs = t @ r" "denotes dotall ((a, Star) # p) t"
      by blast
    with True have "c # cs = (c # t) @ r \<and> denotes dotall ((a, Star) # p) (c # t)"
      by (auto intro: denotes_star_more simp del: denotes.simps)
    then show ?thesis by blast
  next
    case False
    with "5.prems" have *: "match_here dotall (m, n) p (c # cs) = Some r"
      by (auto split: if_splits)
    from False "5.hyps"(2,3) * obtain t where "c # cs = t @ r" "denotes dotall p t"
      by (cases "accepts dotall a c") auto
    then show ?thesis by (auto intro: denotes_star_skip simp del: denotes.simps)
  qed
next
  case (6 dotall a p s)
  show ?case
  proof (cases "match_here dotall (m, n) p s")
    case (Some r')
    with "6.prems" have "r' = r" by simp
    with Some "6.hyps"(1) obtain t where "s = t @ r" "denotes dotall p t" by blast
    then show ?thesis by (auto intro: denotes_star_skip simp del: denotes.simps)
  next
    case None
    with "6.prems" obtain c cs where s: "s = c # cs" and acc: "accepts dotall a c"
      and rec: "match_here dotall (m, n) ((a, StarLazy) # p) cs = Some r"
      by (cases s) (auto split: if_splits)
    with None "6.hyps"(2) obtain t where "cs = t @ r" "denotes dotall ((a, StarLazy) # p) t"
      by blast
    with s acc have "s = (c # t) @ r \<and> denotes dotall ((a, StarLazy) # p) (c # t)"
      by (auto intro: denotes_star_more simp del: denotes.simps)
    then show ?thesis by blast
  qed
qed

subsection \<open>The substitution loop\<close>

lemma matcher_occurs_iff:
  "matcher_occurs d p s \<longleftrightarrow> (\<exists>a t c. s = a @ t @ c \<and> denotes d p t)"
proof
  assume "matcher_occurs d p s"
  then obtain t m where "suffix t s" "prefix m t" "denotes d p m"
    unfolding matcher_occurs_def by auto
  then show "\<exists>a t c. s = a @ t @ c \<and> denotes d p t"
    unfolding suffix_def prefix_def by blast
next
  assume "\<exists>a t c. s = a @ t @ c \<and> denotes d p t"
  then obtain a t c where "s = a @ t @ c" "denotes d p t" by blast
  then have "suffix (t @ c) s \<and> prefix t (t @ c) \<and> denotes d p t"
    by (simp add: suffix_def)
  then show "matcher_occurs d p s"
    unfolding matcher_occurs_def by (metis in_set_suffixes in_set_prefixes)
qed

lemma matcher_occurs_Cons:
  "matcher_occurs d p cs \<Longrightarrow> matcher_occurs d p (c # cs)"
  unfolding matcher_occurs_iff by (metis append_Cons)

lemma re_sub_unchanged:
  "\<not> matcher_occurs d p s \<Longrightarrow> re_sub d p repl m s = s"
proof (induction s arbitrary: m)
  case Nil
  have "match_here d (m, length []) p [] = None"
  proof (rule ccontr)
    assume "match_here d (m, length []) p [] \<noteq> None"
    then obtain r where "match_here d (m, length []) p [] = Some r" by auto
    from match_here_sound [OF this] have "matcher_occurs d p []"
      unfolding matcher_occurs_iff by auto
    with Nil show False by simp
  qed
  then show ?case by (simp add: re_sub.simps)
next
  case (Cons c cs)
  have "match_here d (m, length (c # cs)) p (c # cs) = None"
  proof (rule ccontr)
    assume "match_here d (m, length (c # cs)) p (c # cs) \<noteq> None"
    then obtain r where "match_here d (m, length (c # cs)) p (c # cs) = Some r" by auto
    from match_here_sound [OF this] obtain t where "c # cs = [] @ t @ r" "denotes d p t"
      by auto
    then have "matcher_occurs d p (c # cs)"
      unfolding matcher_occurs_iff by blast
    with Cons.prems show False by simp
  qed
  moreover from Cons.prems have "\<not> matcher_occurs d p cs"
    using matcher_occurs_Cons by blast
  ultimately show ?case
    using Cons.IH by (subst re_sub.simps) simp
qed

text \<open>
  A pattern that starts with a literal character never matches the empty text, and
  \<^verbatim>\<open>must_advance\<close> plays no part.
\<close>

lemma match_here_literal_first:
  "match_here d (m, length s) ((Chr x, One) # p) s = match_here d (False, 0) ((Chr x, One) # p) s"
  by (cases s) (simp_all add: match_here_plain [of m _ "Suc _"] match_here_plain [of False _ "Suc _"])

lemma match_here_literal_shorter:
  "match_here d st ((Chr x, One) # p) s = Some r \<Longrightarrow> length r < length s"
  by (cases s; cases st) (auto split: if_splits dest: match_here_length)

lemma re_sub_literal_first:
  "re_sub d ((Chr x, One) # p) repl m s =
     (case match_here d (False, 0) ((Chr x, One) # p) s of
        Some r \<Rightarrow> repl @ re_sub d ((Chr x, One) # p) repl False r
      | None \<Rightarrow> (case s of [] \<Rightarrow> [] | c # cs \<Rightarrow> c # re_sub d ((Chr x, One) # p) repl False cs))"
  by (subst re_sub.simps)
     (auto simp: match_here_literal_first split: option.splits dest: match_here_literal_shorter)

subsection \<open>Every occurrence\<close>

lemma replace_every_occurrence:
  assumes "\<forall>u \<in> set us. \<not> sublist old (u @ butlast old)" and "\<not> sublist old v"
  shows "replace (concat (map (\<lambda>u. u @ old) us) @ v) old new =
         concat (map (\<lambda>u. u @ new) us) @ v"
  using assms
proof (induction us)
  case Nil
  then show ?case by (simp add: replace_unchanged)
next
  case (Cons u us)
  then have "replace (u @ old @ concat (map (\<lambda>u. u @ old) us) @ v) old new =
             u @ new @ replace (concat (map (\<lambda>u. u @ old) us) @ v) old new"
    by (simp add: replace_first_occurrence)
  with Cons show ?case by simp
qed

subsection \<open>Idempotence of a rule whose texts start with a character of their own\<close>

lemma replace_skip:
  "c \<notin> set u \<Longrightarrow>
   replace (u @ xs) (c # old') new = u @ replace xs (c # old') new"
  by (induction u) auto

lemma prefix_replace:
  "c \<notin> set u \<Longrightarrow>
   prefix u (replace xs (c # old') (c # new')) \<longleftrightarrow> prefix u xs"
proof (induction u arbitrary: xs)
  case Nil
  show ?case by simp
next
  case (Cons y u)
  show ?case
  proof (cases xs)
    case Nil
    then show ?thesis by simp
  next
    case (Cons x xs')
    with Cons.prems Cons.IH [of xs'] show ?thesis by auto
  qed
qed

lemma replace_idempotent:
  assumes c_old: "c \<notin> set old'" and c_new: "c \<notin> set new'"
    and np: "\<not> prefix old' new'" and len: "length old' \<le> length new'"
  shows "replace (replace s (c # old') (c # new')) (c # old') (c # new') =
         replace s (c # old') (c # new')"
proof (induction "length s" arbitrary: s rule: less_induct)
  case less
  show ?case
  proof (cases s)
    case Nil
    then show ?thesis by simp
  next
    case (Cons x xs)
    show ?thesis
    proof (cases "prefix (c # old') s")
      case True
      then obtain rest where s: "s = (c # old') @ rest"
        by (auto simp: prefix_def)
      then have shorter: "length rest < length s" by simp
      let ?R = "replace rest (c # old') (c # new')"
      have once: "replace s (c # old') (c # new') = (c # new') @ ?R"
        unfolding s by (rule replace_at_occurrence) simp
      from np len have "\<not> prefix old' (new' @ ?R)"
        by (auto simp: prefix_append)
      then have "replace ((c # new') @ ?R) (c # old') (c # new') =
                 c # replace (new' @ ?R) (c # old') (c # new')"
        by simp
      also have "\<dots> = c # new' @ replace ?R (c # old') (c # new')"
        using c_new by (simp add: replace_skip)
      also have "\<dots> = (c # new') @ ?R"
        using less.hyps [OF shorter] by simp
      finally show ?thesis by (simp only: once)
    next
      case False
      then have once: "replace s (c # old') (c # new') = x # replace xs (c # old') (c # new')"
        unfolding Cons by auto
      from False have "\<not> prefix (c # old') (x # replace xs (c # old') (c # new'))"
        using prefix_replace [where u = old' and xs = xs and old' = old' and new' = new', OF c_old]
        by (simp add: Cons)
      then have "replace (x # replace xs (c # old') (c # new')) (c # old') (c # new') =
                 x # replace (replace xs (c # old') (c # new')) (c # old') (c # new')"
        by auto
      also have "\<dots> = x # replace xs (c # old') (c # new')"
        using less.hyps [of xs] by (simp add: Cons)
      finally show ?thesis by (simp only: once)
    qed
  qed
qed

subsection \<open>A literal, anything, lazily, and a literal\<close>

lemma match_here_lits_end:
  "match_here d (False, 0) (lits w) s = (if prefix w s then Some (drop (length w) s) else None)"
  using match_here_lits [of d "(False, 0)" w "[]" s] by simp

lemma match_here_lazy_any:
  "\<not> sublist w (body @ butlast w) \<Longrightarrow>
   match_here True (False, 0) ((AnyChar, StarLazy) # lits w) (body @ w @ rest) = Some rest"
proof (induction body)
  case Nil
  show ?case by (simp add: match_here_lits_end)
next
  case (Cons b body)
  from Cons.prems have "\<not> prefix w ((b # body) @ w @ rest)"
    using prefix_before_sublist [of w "b # body" rest] by blast
  moreover from Cons.prems have "\<not> sublist w (body @ butlast w)"
    by (auto simp: sublist_Cons_right)
  ultimately show ?case
    using Cons.IH by (simp add: match_here_lits_end)
qed

lemma match_here_block:
  "\<not> sublist cl (body @ butlast cl) \<Longrightarrow>
   match_here True (False, 0) (lits op @ (AnyChar, StarLazy) # lits cl)
     (op @ body @ cl @ rest) = Some rest"
  by (simp add: match_here_lits match_here_lazy_any del: match_here.simps)

lemma match_here_no_opening:
  "\<not> prefix op s \<Longrightarrow> match_here d st (lits op @ p) s = None"
  by (simp add: match_here_lits)

lemma lits_Cons: "lits (x # w) @ p = (Chr x, One) # (lits w @ p)"
  by (simp add: lits_def)

lemma re_sub_block:
  assumes "op \<noteq> []" and "\<not> sublist cl (body @ butlast cl)"
  shows "re_sub True (lits op @ (AnyChar, StarLazy) # lits cl) repl m (op @ body @ cl @ rest) =
         repl @ re_sub True (lits op @ (AnyChar, StarLazy) # lits cl) repl False rest"
proof -
  from assms(1) obtain x w where op: "op = x # w" by (cases op) auto
  have "match_here True (False, 0) (lits op @ (AnyChar, StarLazy) # lits cl)
          (op @ body @ cl @ rest) = Some rest"
    using assms(2) by (rule match_here_block)
  then show ?thesis
    unfolding op lits_Cons by (subst re_sub_literal_first) simp
qed

lemma re_sub_no_opening:
  assumes "op \<noteq> []" and "\<not> prefix op (c # cs)"
  shows "re_sub d (lits op @ p) repl m (c # cs) = c # re_sub d (lits op @ p) repl False cs"
proof -
  from assms(1) obtain x w where op: "op = x # w" by (cases op) auto
  have "match_here d (False, 0) (lits op @ p) (c # cs) = None"
    using assms(2) by (rule match_here_no_opening)
  then show ?thesis
    unfolding op lits_Cons by (subst re_sub_literal_first) simp
qed

lemma re_sub_first_block:
  assumes "\<not> sublist op (pre @ butlast op)" and "\<not> sublist cl (body @ butlast cl)"
  shows "re_sub True (lits op @ (AnyChar, StarLazy) # lits cl) repl m
           (pre @ op @ body @ cl @ rest) =
         pre @ repl @ re_sub True (lits op @ (AnyChar, StarLazy) # lits cl) repl False rest"
  using assms(1)
proof (induction pre arbitrary: m)
  case Nil
  then have "op \<noteq> []" by auto
  then show ?case using assms(2) by (simp add: re_sub_block)
next
  case (Cons c pre)
  from Cons.prems have ne: "op \<noteq> []" by auto
  from Cons.prems have "\<not> prefix op ((c # pre) @ op @ body @ cl @ rest)"
    using prefix_before_sublist [of op "c # pre" "body @ cl @ rest"] by blast
  then have "re_sub True (lits op @ (AnyChar, StarLazy) # lits cl) repl m
               ((c # pre) @ op @ body @ cl @ rest) =
             c # re_sub True (lits op @ (AnyChar, StarLazy) # lits cl) repl False
               (pre @ op @ body @ cl @ rest)"
    using re_sub_no_opening [OF ne, of c "pre @ op @ body @ cl @ rest"] by simp
  moreover from Cons.prems have "\<not> sublist op (pre @ butlast op)"
    by (auto simp: sublist_Cons_right)
  ultimately show ?case using Cons.IH by simp
qed

lemma denotes_lits: "denotes d (lits w @ p) t \<longleftrightarrow> (\<exists>v. t = w @ v \<and> denotes d p v)"
proof (induction w arbitrary: t)
  case Nil
  show ?case by (simp add: lits_def)
next
  case (Cons x w)
  then show ?case by (cases t) (auto simp: lits_def)
qed

lemma denotes_block:
  "denotes True (lits op @ (AnyChar, StarLazy) # lits cl) t \<longleftrightarrow> (\<exists>body. t = op @ body @ cl)"
proof -
  have "denotes True (lits cl) v \<longleftrightarrow> v = cl" for v
    using denotes_lits [of True cl "[]" v] by simp
  then show ?thesis
    by (auto simp add: denotes_lits denotes_star_iff simp del: denotes.simps)
qed

subsection \<open>The literals of the script\<close>

lemma new_section_parts:
  "\<exists>b. new_section = str ''    <'' @ b @ str ''    <footer>'' \<and>
       \<not> sublist (str ''<footer>'') (str ''   <'' @ b) \<and>
       \<not> sublist (str ''    <footer>'') (str ''    <'' @ b @ str ''    <footer'')"
proof -
  define parts where "parts xs \<longleftrightarrow>
      xs = str ''    <'' @ take 877 (drop 5 xs) @ str ''    <footer>'' \<and>
      \<not> sublist (str ''<footer>'') (str ''   <'' @ take 877 (drop 5 xs)) \<and>
      \<not> sublist (str ''    <footer>'')
          (str ''    <'' @ take 877 (drop 5 xs) @ str ''    <footer'')" for xs
  have "parts new_section"
    by (simp add: new_section_def str_Nil str_Cons parts_def sublist_code(3))
  then show ?thesis
    unfolding parts_def by blast
qed

lemma hd_join_lines: "hd (join_lines ((c # l) # ls)) = c"
  by (cases ls) simp_all

lemma new_style_starts: "hd new_style = 32"
  unfolding new_style_def
  by (subst str_Cons, subst hd_join_lines) simp

lemma new_style_literal: "list_all (\<lambda>c. c \<noteq> 92) new_style"
  by (simp add: new_style_def str_Nil str_Cons)

subsection \<open>Cutting a text at the occurrences\<close>

lemma sublist_trans: "sublist xs ys \<Longrightarrow> sublist ys zs \<Longrightarrow> sublist xs zs"
  unfolding sublist_def by (metis append.assoc)

lemma first_occurrence:
  assumes "sublist old s" and "old \<noteq> []"
  shows "\<exists>pre rest. s = pre @ old @ rest \<and> \<not> sublist old (pre @ butlast old)"
  using assms(1)
proof (induction s)
  case Nil
  with assms(2) show ?case by simp
next
  case (Cons c cs)
  show ?case
  proof (cases "prefix old (c # cs)")
    case True
    then obtain rest where "c # cs = [] @ old @ rest"
      by (auto simp: prefix_def)
    moreover have "\<not> sublist old ([] @ butlast old)"
    proof
      assume "sublist old ([] @ butlast old)"
      then have "sublist old (butlast old)" by simp
      then have "length old \<le> length (butlast old)" by (rule sublist_length_le)
      then have "length old \<le> length old - 1" by (simp only: length_butlast)
      with assms(2) show False by (cases old) simp_all
    qed
    ultimately show ?thesis by blast
  next
    case False
    with Cons.prems have "sublist old cs"
      by (simp add: sublist_Cons_right)
    with Cons.IH obtain pre rest where cs: "cs = pre @ old @ rest"
      and pre: "\<not> sublist old (pre @ butlast old)"
      by blast
    have "\<not> prefix old (c # pre @ butlast old)"
    proof
      assume "prefix old (c # pre @ butlast old)"
      moreover have "prefix (c # pre @ butlast old) (c # cs)"
        unfolding cs using assms(2)
        by (metis Cons_prefix_Cons append_butlast_last_id append_assoc prefix_def same_prefix_prefix)
      ultimately have "prefix old (c # cs)"
        by (rule prefix_order.trans)
      with False show False ..
    qed
    with pre have "\<not> sublist old ((c # pre) @ butlast old)"
      by (simp add: sublist_Cons_right)
    with cs show ?thesis
      by (metis append_Cons)
  qed
qed

lemma occurrences_decompose:
  assumes "old \<noteq> []"
  shows "\<exists>us v. s = concat (map (\<lambda>u. u @ old) us) @ v \<and>
           (\<forall>u \<in> set us. \<not> sublist old (u @ butlast old)) \<and> \<not> sublist old v"
proof (induction "length s" arbitrary: s rule: less_induct)
  case less
  show ?case
  proof (cases "sublist old s")
    case False
    then have "s = concat (map (\<lambda>u. u @ old) []) @ s \<and>
        (\<forall>u \<in> set []. \<not> sublist old (u @ butlast old)) \<and> \<not> sublist old s"
      by simp
    then show ?thesis by blast
  next
    case True
    from first_occurrence [OF this assms] obtain pre rest
      where s: "s = pre @ old @ rest" and pre: "\<not> sublist old (pre @ butlast old)"
      by blast
    from s assms have "length rest < length s" by simp
    from less.hyps [OF this] obtain us v
      where rest: "rest = concat (map (\<lambda>u. u @ old) us) @ v"
        and us: "\<forall>u \<in> set us. \<not> sublist old (u @ butlast old)" and v: "\<not> sublist old v"
      by blast
    have "s = concat (map (\<lambda>u. u @ old) (pre # us)) @ v"
      by (simp add: s rest)
    moreover have "\<forall>u \<in> set (pre # us). \<not> sublist old (u @ butlast old)"
      using pre us by simp
    ultimately show ?thesis using v by blast
  qed
qed

lemma occurrences_cut_exists:
  "old \<noteq> [] \<Longrightarrow> \<exists>us v. cut_at_occurrences old s us v"
  unfolding cut_at_occurrences_def by (rule occurrences_decompose)

lemma replace_cut:
  "cut_at_occurrences old s us v \<Longrightarrow> replace s old new = concat (map (\<lambda>u. u @ new) us) @ v"
  unfolding cut_at_occurrences_def by (auto simp: replace_every_occurrence)

subsection \<open>Cutting a text at the blocks\<close>

lemma block_occurs_iff:
  "block_occurs op cl s \<longleftrightarrow> (\<exists>a b d. s = a @ op @ b @ cl @ d)"
proof
  assume "block_occurs op cl s"
  then obtain t where "suffix t s" "prefix op t" "sublist cl (drop (length op) t)"
    unfolding block_occurs_def by auto
  then obtain a r where "s = a @ op @ r" "sublist cl r"
    by (auto simp: suffix_def prefix_def)
  then show "\<exists>a b d. s = a @ op @ b @ cl @ d"
    unfolding sublist_def by blast
next
  assume "\<exists>a b d. s = a @ op @ b @ cl @ d"
  then obtain a b d where s: "s = a @ op @ b @ cl @ d" by blast
  then have "suffix (op @ b @ cl @ d) s \<and> prefix op (op @ b @ cl @ d) \<and>
      sublist cl (drop (length op) (op @ b @ cl @ d))"
    by (simp add: suffix_def)
  then show "block_occurs op cl s"
    unfolding block_occurs_def by (metis in_set_suffixes)
qed

lemma occurrence_not_before_first:
  assumes s: "pre @ op @ r = a @ op @ t" and first: "\<not> sublist op (pre @ butlast op)"
  shows "length pre \<le> length a"
proof (rule ccontr)
  assume "\<not> length pre \<le> length a"
  then have len: "length (a @ op) \<le> length (pre @ butlast op)"
    by (cases "op = []") auto
  from first have ne: "op \<noteq> []" by auto
  have "pre @ op @ r = (pre @ butlast op) @ (last op # r)"
    using ne by simp
  with s have "(a @ op) @ t = (pre @ butlast op) @ (last op # r)"
    by simp
  with len have "prefix (a @ op) (pre @ butlast op)"
    by (metis append_eq_append_conv_if prefix_def take_is_prefix)
  then have "sublist op (pre @ butlast op)"
    by (metis prefix_def sublist_appendI append.assoc)
  with first show False ..
qed

lemma blocks_decompose:
  assumes "op \<noteq> []" and "cl \<noteq> []"
  shows "\<exists>blocks v. cut_at_blocks op cl s blocks v"
proof (induction "length s" arbitrary: s rule: less_induct)
  case less
  show ?case
  proof (cases "block_occurs op cl s")
    case False
    then have "cut_at_blocks op cl s [] s"
      by (simp add: cut_at_blocks_def)
    then show ?thesis by blast
  next
    case True
    then obtain a b d where abd: "s = a @ op @ b @ cl @ d"
      unfolding block_occurs_iff by blast
    then have "sublist op s" by simp
    from first_occurrence [OF this assms(1)] obtain pre r
      where s: "s = pre @ op @ r" and pre: "\<not> sublist op (pre @ butlast op)"
      by blast
    from s abd pre have "length pre \<le> length a"
      using occurrence_not_before_first [of pre op r a "b @ cl @ d"] by simp
    moreover have "drop (length pre + length op) s = r"
      unfolding s by simp
    moreover have "drop (length a + length op) s = b @ cl @ d"
      unfolding abd by simp
    ultimately have "b @ cl @ d = drop (length a - length pre) r"
      by (metis add_diff_cancel_left' add.commute drop_drop le_add_diff_inverse2 add.assoc)
    then have "sublist cl r"
      by (metis sublist_appendI sublist_drop sublist_trans)
    from first_occurrence [OF this assms(2)] obtain body rest
      where r: "r = body @ cl @ rest" and body: "\<not> sublist cl (body @ butlast cl)"
      by blast
    from s r assms have "length rest < length s" by simp
    from less.hyps [OF this] obtain blocks v where rest: "cut_at_blocks op cl rest blocks v"
      by blast
    then have "cut_at_blocks op cl s ((pre, body) # blocks) v"
      using pre body by (simp add: cut_at_blocks_def s r)
    then show ?thesis by blast
  qed
qed

lemma block_matcher_occurs:
  "matcher_occurs True (lits op @ (AnyChar, StarLazy) # lits cl) s \<longleftrightarrow> block_occurs op cl s"
  unfolding matcher_occurs_iff denotes_block block_occurs_iff
  by (metis append.assoc)

lemma re_sub_cut:
  assumes "cut_at_blocks op cl s blocks v"
  shows "re_sub True (lits op @ (AnyChar, StarLazy) # lits cl) repl m s =
         concat (map (\<lambda>(pre, body). pre @ repl) blocks) @ v"
proof -
  let ?p = "lits op @ (AnyChar, StarLazy) # lits cl"
  from assms have v: "\<not> block_occurs op cl v"
    and blocks: "\<forall>(pre, body) \<in> set blocks.
      \<not> sublist op (pre @ butlast op) \<and> \<not> sublist cl (body @ butlast cl)"
    and s: "s = concat (map (\<lambda>(pre, body). pre @ op @ body @ cl) blocks) @ v"
    by (simp_all add: cut_at_blocks_def)
  from blocks have
    "re_sub True ?p repl m (concat (map (\<lambda>(pre, body). pre @ op @ body @ cl) blocks) @ v) =
     concat (map (\<lambda>(pre, body). pre @ repl) blocks) @ v"
  proof (induction blocks arbitrary: m)
    case Nil
    show ?case using v by (simp add: re_sub_unchanged block_matcher_occurs)
  next
    case (Cons block blocks)
    obtain pre body where block: "block = (pre, body)" by (cases block)
    with Cons.prems have
      "re_sub True ?p repl m (pre @ op @ body @ cl @
         concat (map (\<lambda>(pre, body). pre @ op @ body @ cl) blocks) @ v) =
       pre @ repl @ re_sub True ?p repl False
         (concat (map (\<lambda>(pre, body). pre @ op @ body @ cl) blocks) @ v)"
      by (intro re_sub_first_block) simp_all
    with Cons block show ?case by simp
  qed
  with s show ?thesis by simp
qed

section \<open>The claims\<close>

subsection \<open>The number of footers\<close>

lemma occurrences_indented:
  assumes "c \<notin> set w" and "w \<noteq> []"
  shows "occurrences w (v @ replicate (Suc k) c @ zs) = occurrences w v + occurrences w zs"
proof -
  have "occurrences w (v @ replicate (Suc k) c @ zs) = occurrences w (v @ c # (replicate k c @ zs))"
    by simp
  also have "\<dots> = occurrences w v + occurrences w (replicate k c @ zs)"
    using assms by (rule occurrences_split)
  also have "occurrences w (replicate k c @ zs) = occurrences w zs"
    using assms by (rule occurrences_replicate)
  finally show ?thesis .
qed

lemma footer_marker: "str ''    <footer>'' = replicate (Suc 3) 32 @ str ''<footer>''"
  by (simp add: str_Nil str_Cons numeral_3_eq_3)

lemma occurrences_patch_index:
  "occurrences (str ''<footer>'') (patch_index s) = occurrences (str ''<footer>'') s"
proof -
  obtain b where ns: "new_section = str ''    <'' @ b @ str ''    <footer>''"
    and b: "\<not> sublist (str ''<footer>'') (str ''   <'' @ b)"
    using new_section_parts by blast
  have "occurrences (str ''<footer>'') ([] @ replace s (str ''    <footer>'') new_section) =
        occurrences (str ''<footer>'') ([] @ s)"
  proof (rule occurrences_replace_indented [where c = 32 and k = 3 and b = "str ''   <'' @ b"])
    show "32 \<notin> set (str ''<footer>'')" by (simp add: str_Nil str_Cons)
    show "str ''<footer>'' \<noteq> []" by (simp add: str_Cons)
    show "str ''    <footer>'' = replicate (Suc 3) 32 @ str ''<footer>''" by (rule footer_marker)
    show "new_section = 32 # (str ''   <'' @ b) @ str ''    <footer>''"
      by (simp add: ns str_Nil str_Cons)
    show "occurrences (str ''<footer>'') (str ''   <'' @ b) = 0"
      using b occurrences_pos_iff [of "str ''<footer>''" "str ''   <'' @ b"] by simp
    show "32 \<notin> set []" by simp
  qed
  then show ?thesis by (simp add: patch_index_def)
qed

lemma occurrences_new_section: "occurrences (str ''<footer>'') new_section = 1"
proof -
  let ?w = "str ''<footer>''"
  obtain b where ns: "new_section = str ''    <'' @ b @ str ''    <footer>''"
    and b: "\<not> sublist ?w (str ''   <'' @ b)"
    using new_section_parts by blast
  have sp: "32 \<notin> set ?w" and ne: "?w \<noteq> []"
    by (simp_all add: str_Nil str_Cons)
  have "new_section = (str ''    <'' @ b) @ replicate (Suc 3) 32 @ ?w"
    by (simp only: ns footer_marker append_assoc)
  moreover have "occurrences ?w ((str ''    <'' @ b) @ replicate (Suc 3) 32 @ ?w) =
                 occurrences ?w (str ''    <'' @ b) + occurrences ?w ?w"
    using sp ne by (rule occurrences_indented)
  moreover have "occurrences ?w (str ''    <'' @ b) = occurrences ?w ([] @ 32 # (str ''   <'' @ b))"
    by (simp add: str_Nil str_Cons)
  moreover have "occurrences ?w ([] @ 32 # (str ''   <'' @ b)) =
                 occurrences ?w [] + occurrences ?w (str ''   <'' @ b)"
    using sp ne by (rule occurrences_split)
  moreover have "occurrences ?w (str ''   <'' @ b) = 0"
    using b occurrences_pos_iff [of ?w "str ''   <'' @ b"] by simp
  moreover have "occurrences ?w [] = 0" "occurrences ?w ?w = 1"
    by (simp_all add: str_Nil str_Cons)
  ultimately show ?thesis by (simp only: add_0)
qed

lemma new_section_ends_with_marker: "suffix (str ''    <footer>'') new_section"
proof -
  obtain b where "new_section = (str ''    <'' @ b) @ str ''    <footer>''"
    using new_section_parts by auto
  then show ?thesis by (rule suffixI)
qed

text \<open>
  C8. For every content of index.html, the patched content holds \<^verbatim>\<open><footer>\<close> at as many
  positions as the content did: the content is cut at the occurrences of the indented
  marker, every such occurrence gives way to the new section, which ends with the marker
  and holds \<^verbatim>\<open><footer>\<close> exactly once, and the texts in front of, between and behind the
  occurrences are copied.
\<close>

theorem footer_count_preserved:
  "occurrences (str ''<footer>'') (patch_index index_content) =
     occurrences (str ''<footer>'') index_content \<and>
   (\<exists>us v. cut_at_occurrences (str ''    <footer>'') index_content us v) \<and>
   (\<forall>us v. cut_at_occurrences (str ''    <footer>'') index_content us v \<longrightarrow>
      patch_index index_content = concat (map (\<lambda>u. u @ new_section) us) @ v) \<and>
   suffix (str ''    <footer>'') new_section \<and>
   occurrences (str ''<footer>'') new_section = 1"
proof -
  have "\<exists>us v. cut_at_occurrences (str ''    <footer>'') index_content us v"
    by (rule occurrences_cut_exists) (simp add: str_Cons)
  moreover have "\<forall>us v. cut_at_occurrences (str ''    <footer>'') index_content us v \<longrightarrow>
      patch_index index_content = concat (map (\<lambda>u. u @ new_section) us) @ v"
    by (simp add: patch_index_def replace_cut)
  ultimately show ?thesis
    using occurrences_patch_index [of index_content] new_section_ends_with_marker
      occurrences_new_section
    by blast
qed

text \<open>
  The content \<^verbatim>\<open><footer>a    <footer>b\<close>, with a footer that is not indented and one that
  is: two footers before the patch and two after it.
\<close>

theorem footer_count_preserved_witness:
  "cut_at_occurrences (str ''    <footer>'') (str ''<footer>a    <footer>b'')
     [str ''<footer>a''] (str ''b'') \<and>
   patch_index (str ''<footer>a    <footer>b'') = str ''<footer>a'' @ new_section @ str ''b'' \<and>
   occurrences (str ''<footer>'') (str ''<footer>a    <footer>b'') = 2 \<and>
   occurrences (str ''<footer>'') (patch_index (str ''<footer>a    <footer>b'')) = 2"
proof -
  let ?c = "str ''<footer>a    <footer>b''"
  have cut: "cut_at_occurrences (str ''    <footer>'') ?c [str ''<footer>a''] (str ''b'')"
    by (simp add: cut_at_occurrences_def str_Nil str_Cons sublist_code(3))
  have two: "occurrences (str ''<footer>'') ?c = 2"
    by (simp add: str_Nil str_Cons)
  from footer_count_preserved [of ?c] cut
  have "patch_index ?c = concat (map (\<lambda>u. u @ new_section) [str ''<footer>a'']) @ str ''b''"
    by blast
  moreover from footer_count_preserved [of ?c] two
  have "occurrences (str ''<footer>'') (patch_index ?c) = 2"
    by simp
  ultimately show ?thesis using cut two by simp
qed

subsection \<open>The paragraph rule\<close>

text \<open>
  C9. The rule that rewrites \<^verbatim>\<open><p style="margin-bottom:0;">\<close> is idempotent: on every
  content, applying it twice gives what applying it once gives. The new tag does not hold
  the old one.
\<close>

theorem replace_p_tag_idempotent:
  "replace_p_tag (replace_p_tag c) = replace_p_tag c \<and> \<not> sublist old_p_tag new_p_tag"
proof
  have "replace (replace c (60 # tl old_p_tag) (60 # tl new_p_tag))
          (60 # tl old_p_tag) (60 # tl new_p_tag) =
        replace c (60 # tl old_p_tag) (60 # tl new_p_tag)"
    by (rule replace_idempotent) (simp_all add: old_p_tag_def new_p_tag_def str_Nil str_Cons)
  moreover have "60 # tl old_p_tag = old_p_tag" "60 # tl new_p_tag = new_p_tag"
    by (simp_all add: old_p_tag_def new_p_tag_def str_Nil str_Cons)
  ultimately show "replace_p_tag (replace_p_tag c) = replace_p_tag c"
    by (simp add: replace_p_tag_def)
  show "\<not> sublist old_p_tag new_p_tag"
    by (simp add: old_p_tag_def new_p_tag_def str_Nil str_Cons sublist_code(3))
qed

subsection \<open>The footer rule\<close>

lemma butlast_footer_marker: "butlast (str ''    <footer>'') = str ''    <footer''"
  by (simp add: str_Nil str_Cons)

lemma footer_in_marker: "sublist (str ''<footer>'') (str ''    <footer>'')"
  unfolding footer_marker by (rule sublist_append_leftI)

lemma patch_index_unchanged:
  "\<not> sublist (str ''    <footer>'') c \<Longrightarrow> patch_index c = c"
  by (simp add: patch_index_def replace_unchanged)

lemma patch_index_every_marker:
  assumes "\<forall>u \<in> set us. \<not> sublist (str ''    <footer>'') (u @ str ''    <footer'')"
    and "\<not> sublist (str ''    <footer>'') v"
  shows "patch_index (concat (map (\<lambda>u. u @ str ''    <footer>'') us) @ v) =
         concat (map (\<lambda>u. u @ new_section) us) @ v"
  unfolding patch_index_def
  using assms by (intro replace_every_occurrence) (simp_all add: butlast_footer_marker)

lemma new_section_not_marker:
  "new_section @ xs \<noteq> str ''    '' @ new_section @ ys"
  "new_section \<noteq> str ''<footer>''"
  "new_section \<noteq> str ''    <footer>''"
proof -
  obtain b where ns: "new_section = str ''    <'' @ b @ str ''    <footer>''"
    using new_section_parts by blast
  show "new_section @ xs \<noteq> str ''    '' @ new_section @ ys"
    by (simp add: ns str_Nil str_Cons)
  show "new_section \<noteq> str ''<footer>''"
    by (simp add: ns str_Nil str_Cons)
  show "new_section \<noteq> str ''    <footer>''"
    by (simp add: ns str_Nil str_Cons)
qed

text \<open>
  C1, as the specification states it: a content that holds \<^verbatim>\<open><footer>\<close> has the first
  occurrence of \<^verbatim>\<open><footer>\<close>, and no other, replaced by the block that ends with the marker.
  On the content of two indented footers the script replaces both, four spaces of
  indentation included, and the result is not what replacing the first \<^verbatim>\<open><footer>\<close> gives.
\<close>

theorem first_footer_only_counterexample:
  "sublist (str ''<footer>'') (str ''    <footer>    <footer>'') \<and>
   patch_index (str ''    <footer>    <footer>'') = new_section @ new_section \<and>
   replace_first (str ''    <footer>    <footer>'') (str ''<footer>'') new_section =
     str ''    '' @ new_section @ str ''    <footer>'' \<and>
   new_section @ new_section \<noteq> str ''    '' @ new_section @ str ''    <footer>''"
proof -
  have "sublist (str ''<footer>'') (str ''    <footer>    <footer>'')"
    by (simp add: str_Nil str_Cons sublist_code(3))
  moreover have "patch_index (str ''    <footer>    <footer>'') = new_section @ new_section"
    using patch_index_every_marker [of "[[], []]" "[]"]
    by (simp add: str_Nil str_Cons sublist_code(3))
  moreover have "replace_first (str ''    <footer>    <footer>'') (str ''<footer>'') new_section =
     str ''    '' @ new_section @ str ''    <footer>''"
    by (simp add: str_Nil str_Cons)
  moreover have "new_section @ new_section \<noteq> str ''    '' @ new_section @ str ''    <footer>''"
    by (rule new_section_not_marker)
  ultimately show ?thesis by blast
qed


text \<open>
  C1, amended: the marker is \<^verbatim>\<open><footer>\<close> behind four spaces, and every occurrence of it is
  replaced, from left to right, by the new section, which is the block followed by the
  marker; the text between the occurrences and behind the last one is copied. Every
  content is cut at the occurrences of the marker in some way, and whenever it is cut
  into the texts \<open>us\<close> in front of the occurrences and the text \<open>v\<close> behind the last, the
  result is these texts with the new section in the place of every marker.
\<close>

theorem every_indented_footer_replaced:
  "(\<exists>us v. cut_at_occurrences (str ''    <footer>'') index_content us v) \<and>
   (\<forall>us v. cut_at_occurrences (str ''    <footer>'') index_content us v \<longrightarrow>
      patch_index index_content = concat (map (\<lambda>u. u @ new_section) us) @ v)"
proof
  show "\<exists>us v. cut_at_occurrences (str ''    <footer>'') index_content us v"
    by (rule occurrences_cut_exists) (simp add: str_Cons)
  show "\<forall>us v. cut_at_occurrences (str ''    <footer>'') index_content us v \<longrightarrow>
      patch_index index_content = concat (map (\<lambda>u. u @ new_section) us) @ v"
    by (simp add: patch_index_def replace_cut)
qed

text \<open>Two markers, in \<^verbatim>\<open><body>    <footer>x    <footer></html>\<close>.\<close>

theorem every_indented_footer_replaced_witness:
  "cut_at_occurrences (str ''    <footer>'') (str ''<body>    <footer>x    <footer></html>'')
     [str ''<body>'', str ''x''] (str ''</html>'') \<and>
   patch_index (str ''<body>    <footer>x    <footer></html>'') =
     str ''<body>'' @ new_section @ str ''x'' @ new_section @ str ''</html>''"
proof -
  have cut: "cut_at_occurrences (str ''    <footer>'')
      (str ''<body>    <footer>x    <footer></html>'') [str ''<body>'', str ''x''] (str ''</html>'')"
    by (simp add: cut_at_occurrences_def str_Nil str_Cons sublist_code(3))
  with every_indented_footer_replaced [of "str ''<body>    <footer>x    <footer></html>''"]
  have "patch_index (str ''<body>    <footer>x    <footer></html>'') =
        concat (map (\<lambda>u. u @ new_section) [str ''<body>'', str ''x'']) @ str ''</html>''"
    by blast
  with cut show ?thesis by simp
qed

subsection \<open>The minimal page\<close>

text \<open>
  C3, as the specification states it: the page \<^verbatim>\<open><html><body><footer>x</footer></body></html>\<close>
  becomes \<^verbatim>\<open><html><body>\<close>, the new block and \<^verbatim>\<open><footer>x</footer></body></html>\<close>. The new
  section of the script is the block with the footer tag at its end, so that the expected
  text is the page with \<^verbatim>\<open><footer>\<close> replaced by the new section. The script leaves the
  page as it is: its footer is not indented.
\<close>

theorem minimal_page_counterexample:
  "patch_index (str ''<html><body><footer>x</footer></body></html>'') \<noteq>
   str ''<html><body>'' @ new_section @ str ''x</footer></body></html>''"
proof -
  have "patch_index (str ''<html><body><footer>x</footer></body></html>'') =
        str ''<html><body>'' @ str ''<footer>'' @ str ''x</footer></body></html>''"
    by (subst patch_index_unchanged) (simp_all add: str_Nil str_Cons sublist_code(3))
  then show ?thesis
    using new_section_not_marker(2) by simp
qed

text \<open>
  C3, amended: the page of the claim is returned unchanged, and the page whose footer
  stands behind four spaces, \<^verbatim>\<open><html><body>    <footer>x</footer></body></html>\<close>, becomes
  \<^verbatim>\<open><html><body>\<close>, the new section (which ends with the indented footer tag) and
  \<^verbatim>\<open>x</footer></body></html>\<close>.
\<close>

theorem minimal_page_indented:
  "patch_index (str ''<html><body><footer>x</footer></body></html>'') =
     str ''<html><body><footer>x</footer></body></html>'' \<and>
   patch_index (str ''<html><body>    <footer>x</footer></body></html>'') =
     str ''<html><body>'' @ new_section @ str ''x</footer></body></html>''"
proof
  show "patch_index (str ''<html><body><footer>x</footer></body></html>'') =
     str ''<html><body><footer>x</footer></body></html>''"
    by (rule patch_index_unchanged) (simp add: str_Nil str_Cons sublist_code(3))
  show "patch_index (str ''<html><body>    <footer>x</footer></body></html>'') =
     str ''<html><body>'' @ new_section @ str ''x</footer></body></html>''"
    using patch_index_every_marker [of "[str ''<html><body>'']" "str ''x</footer></body></html>''"]
    by (simp add: str_Nil str_Cons sublist_code(3))
qed

subsection \<open>Running the script twice\<close>

lemma patch_fremtidsplaner_empty: "patch_fremtidsplaner [] = []"
  by (simp add: patch_fremtidsplaner_def replace_p_tag_def replace_link_style_def
      remove_bg_elements_def sub_style_def re_sub_unchanged matcher_occurs_def
      style_pattern_def bg_elements_pattern_def lits_def str_Nil str_Cons
      old_p_tag_def old_link_style_def)

text \<open>
  C6. The transformation of the two contents is not idempotent: the new section is what
  one run makes of the content \<^verbatim>\<open>    <footer>\<close>, and a run on the new section changes it
  (the section ends with the marker, and the block is inserted once more).
\<close>

theorem patch_not_idempotent:
  "patch_contents (str ''    <footer>'', []) = (new_section, []) \<and>
   patch_contents (new_section, []) \<noteq> (new_section, [])"
proof
  show "patch_contents (str ''    <footer>'', []) = (new_section, [])"
    using patch_index_every_marker [of "[[]]" "[]"]
    by (simp add: patch_contents_def patch_fremtidsplaner_empty str_Nil str_Cons sublist_code(3))
  obtain b where ns: "new_section = str ''    <'' @ b @ str ''    <footer>''"
    and b: "\<not> sublist (str ''    <footer>'') (str ''    <'' @ b @ str ''    <footer'')"
    using new_section_parts by blast
  have eq: "new_section = (str ''    <'' @ b) @ str ''    <footer>'' @ []"
    using ns by simp
  have "replace ((str ''    <'' @ b) @ str ''    <footer>'' @ []) (str ''    <footer>'') new_section =
        (str ''    <'' @ b) @ new_section @ replace [] (str ''    <footer>'') new_section"
    by (rule replace_first_occurrence) (simp add: butlast_footer_marker b)
  then have "replace new_section (str ''    <footer>'') new_section =
        (str ''    <'' @ b) @ new_section @ replace [] (str ''    <footer>'') new_section"
    unfolding eq [symmetric] .
  then have "patch_index new_section = str ''    <'' @ b @ new_section"
    by (simp add: patch_index_def str_Cons)
  then have "patch_index new_section \<noteq> new_section"
    by (simp add: str_Cons)
  then show "patch_contents (new_section, []) \<noteq> (new_section, [])"
    by (simp add: patch_contents_def)
qed

subsection \<open>A single footer\<close>

lemma butlast_marker_indent:
  "butlast (str ''    <footer>'') = replicate (Suc 3) 32 @ str ''<footer''"
  by (simp add: str_Nil str_Cons numeral_3_eq_3)

lemma patch_index_single_marker:
  assumes c: "index_content = pre @ str ''    <footer>'' @ rest"
    and one: "occurrences (str ''<footer>'') index_content = 1"
  shows "patch_index index_content = pre @ new_section @ rest"
proof -
  let ?w = "str ''<footer>''" and ?m = "str ''    <footer>''"
  have sp: "32 \<notin> set ?w" and ne: "?w \<noteq> []"
    by (simp_all add: str_Nil str_Cons)
  have "index_content = pre @ replicate (Suc 3) 32 @ (?w @ rest)"
    by (simp only: c footer_marker append_assoc)
  moreover have "occurrences ?w (pre @ replicate (Suc 3) 32 @ (?w @ rest)) =
                 occurrences ?w pre + occurrences ?w (?w @ rest)"
    using sp ne by (rule occurrences_indented)
  ultimately have "occurrences ?w index_content =
                   occurrences ?w pre + occurrences ?w (?w @ rest)"
    by (simp only:)
  moreover have "occurrences ?w (?w @ rest) = 1 + occurrences ?w (str ''footer>'' @ rest)"
    by (simp add: str_Nil str_Cons)
  moreover have "occurrences ?w rest \<le> occurrences ?w (str ''footer>'' @ rest)"
    by (rule occurrences_append_ge)
  ultimately have pre0: "occurrences ?w pre = 0" and rest0: "occurrences ?w rest = 0"
    using one by simp_all
  have no_rest: "\<not> sublist ?m rest"
  proof
    assume "sublist ?m rest"
    with footer_in_marker have "sublist ?w rest"
      by (rule sublist_trans)
    with rest0 show False
      using occurrences_pos_iff [of ?w rest] by simp
  qed
  have no_pre: "\<not> sublist ?m (pre @ butlast ?m)"
  proof
    assume "sublist ?m (pre @ butlast ?m)"
    with footer_in_marker have "sublist ?w (pre @ butlast ?m)"
      by (rule sublist_trans)
    then have "0 < occurrences ?w (pre @ replicate (Suc 3) 32 @ str ''<footer'')"
      by (simp only: occurrences_pos_iff butlast_marker_indent)
    moreover have "occurrences ?w (pre @ replicate (Suc 3) 32 @ str ''<footer'') =
                   occurrences ?w pre + occurrences ?w (str ''<footer'')"
      using sp ne by (rule occurrences_indented)
    moreover have "occurrences ?w (str ''<footer'') = 0"
      by (simp add: str_Nil str_Cons)
    ultimately show False using pre0 by simp
  qed
  have "replace (pre @ ?m @ rest) ?m new_section = pre @ new_section @ replace rest ?m new_section"
    using no_pre by (rule replace_first_occurrence)
  with no_rest show ?thesis
    by (simp add: patch_index_def c replace_unchanged)
qed

text \<open>
  C4, as the specification states it: a content with exactly one \<^verbatim>\<open><footer>\<close> has the new
  block in front of that footer after the patch. The content \<^verbatim>\<open><footer>\<close> holds the marker
  once, and the script returns it unchanged: the result is not the new section, which is
  the block in front of \<^verbatim>\<open><footer>\<close>.
\<close>

theorem single_footer_counterexample:
  "occurrences (str ''<footer>'') (str ''<footer>'') = 1 \<and>
   patch_index (str ''<footer>'') = str ''<footer>'' \<and>
   patch_index (str ''<footer>'') \<noteq> new_section"
proof -
  have "patch_index (str ''<footer>'') = str ''<footer>''"
    by (rule patch_index_unchanged) (simp add: str_Nil str_Cons sublist_code(3))
  moreover have "occurrences (str ''<footer>'') (str ''<footer>'') = 1"
    by (simp add: str_Nil str_Cons)
  ultimately show ?thesis
    using new_section_not_marker(2) by simp
qed

text \<open>
  C4, amended: when the content holds \<^verbatim>\<open><footer>\<close> exactly once and that occurrence stands
  behind four spaces, the patched content is the text in front of the indented marker,
  the new section (the block, then the marker) and the text behind the marker, and it
  holds \<^verbatim>\<open><footer>\<close> exactly once.
\<close>

theorem single_indented_footer:
  assumes "index_content = pre @ str ''    <footer>'' @ rest"
    and "occurrences (str ''<footer>'') index_content = 1"
  shows "patch_index index_content = pre @ new_section @ rest \<and>
         occurrences (str ''<footer>'') (patch_index index_content) = 1"
proof
  show "patch_index index_content = pre @ new_section @ rest"
    using assms by (rule patch_index_single_marker)
  show "occurrences (str ''<footer>'') (patch_index index_content) = 1"
    by (simp only: occurrences_patch_index assms(2))
qed

text \<open>The content \<^verbatim>\<open><body>    <footer>x</footer>\<close>.\<close>

theorem single_indented_footer_witness:
  "str ''<body>    <footer>x</footer>'' = str ''<body>'' @ str ''    <footer>'' @ str ''x</footer>'' \<and>
   occurrences (str ''<footer>'') (str ''<body>    <footer>x</footer>'') = 1 \<and>
   patch_index (str ''<body>    <footer>x</footer>'') =
     str ''<body>'' @ new_section @ str ''x</footer>'' \<and>
   occurrences (str ''<footer>'') (patch_index (str ''<body>    <footer>x</footer>'')) = 1"
proof -
  have a: "str ''<body>    <footer>x</footer>'' =
           str ''<body>'' @ str ''    <footer>'' @ str ''x</footer>''"
    by (simp add: str_Nil str_Cons)
  have b: "occurrences (str ''<footer>'') (str ''<body>    <footer>x</footer>'') = 1"
    by (simp add: str_Nil str_Cons)
  from single_indented_footer [OF a b] a b show ?thesis by blast
qed

subsection \<open>The link rule\<close>

text \<open>
  C5. The rule for the purple link style rewrites every occurrence of the old attribute,
  not the first one only, in every content: the content is cut at the occurrences of the
  old attribute in some way, and whenever it is cut into the texts \<open>us\<close> in front of the
  occurrences and the text \<open>v\<close> behind the last, the result is these texts with the new
  attribute in the place of every old one.
\<close>

theorem every_link_style_replaced:
  "(\<exists>us v. cut_at_occurrences old_link_style c us v) \<and>
   (\<forall>us v. cut_at_occurrences old_link_style c us v \<longrightarrow>
      replace_link_style c = concat (map (\<lambda>u. u @ new_link_style) us) @ v)"
proof
  show "\<exists>us v. cut_at_occurrences old_link_style c us v"
    by (rule occurrences_cut_exists) (simp add: old_link_style_def str_Cons)
  show "\<forall>us v. cut_at_occurrences old_link_style c us v \<longrightarrow>
      replace_link_style c = concat (map (\<lambda>u. u @ new_link_style) us) @ v"
    by (simp add: replace_link_style_def replace_cut)
qed

text \<open>Two links with the old attribute.\<close>

theorem every_link_style_replaced_witness:
  "cut_at_occurrences old_link_style
     (str ''<a '' @ old_link_style @ str ''>x</a><a '' @ old_link_style @ str ''>y</a>'')
     [str ''<a '', str ''>x</a><a ''] (str ''>y</a>'') \<and>
   replace_link_style
     (str ''<a '' @ old_link_style @ str ''>x</a><a '' @ old_link_style @ str ''>y</a>'') =
   str ''<a '' @ new_link_style @ str ''>x</a><a '' @ new_link_style @ str ''>y</a>''"
proof -
  let ?c = "str ''<a '' @ old_link_style @ str ''>x</a><a '' @ old_link_style @ str ''>y</a>''"
  have a: "\<not> sublist old_link_style (str ''<a '' @ butlast old_link_style)"
    by (simp add: old_link_style_def str_Nil str_Cons sublist_code(3))
  have b: "\<not> sublist old_link_style (str ''>x</a><a '' @ butlast old_link_style)"
    by (simp add: old_link_style_def str_Nil str_Cons sublist_code(3))
  have c: "\<not> sublist old_link_style (str ''>y</a>'')"
    by (simp add: old_link_style_def str_Nil str_Cons sublist_code(3))
  from a b c have cut: "cut_at_occurrences old_link_style ?c
      [str ''<a '', str ''>x</a><a ''] (str ''>y</a>'')"
    by (simp add: cut_at_occurrences_def)
  with every_link_style_replaced [of ?c]
  have "replace_link_style ?c =
        concat (map (\<lambda>u. u @ new_link_style) [str ''<a '', str ''>x</a><a '']) @ str ''>y</a>''"
    by blast
  with cut show ?thesis by simp
qed

subsection \<open>The stylesheet rule\<close>

lemma style_pattern_lits:
  "style_pattern = lits (str ''<style>'') @ (AnyChar, StarLazy) # lits (str ''</style>'')"
  by (simp add: style_pattern_def)

lemma sub_style_unchanged:
  "\<not> block_occurs (str ''<style>'') (str ''</style>'') c \<Longrightarrow> sub_style c = c"
  unfolding sub_style_def style_pattern_lits
  by (rule re_sub_unchanged) (simp add: block_matcher_occurs)

lemma sub_style_cut:
  "cut_at_blocks (str ''<style>'') (str ''</style>'') c blocks v \<Longrightarrow>
   sub_style c = concat (map (\<lambda>(pre, body). pre @ new_style) blocks) @ v"
  unfolding sub_style_def style_pattern_lits by (rule re_sub_cut)

lemma new_style_not_block: "new_style \<noteq> str ''<style>b</style>''"
proof
  assume "new_style = str ''<style>b</style>''"
  then have "hd new_style = hd (str ''<style>b</style>'')" by (rule arg_cong)
  then show False by (simp add: new_style_starts str_Cons)
qed

text \<open>
  C2, as the specification states it: the first \<^verbatim>\<open><style>...</style>\<close> pair is replaced by
  the new stylesheet and every other one is left as it is. On a content of two pairs the
  script replaces both.
\<close>

theorem first_style_only_counterexample:
  "sub_style (str ''<style>a</style><style>b</style>'') = new_style @ new_style \<and>
   new_style @ new_style \<noteq> new_style @ str ''<style>b</style>''"
proof
  have "cut_at_blocks (str ''<style>'') (str ''</style>'')
      (str ''<style>a</style><style>b</style>'') [([], str ''a''), ([], str ''b'')] []"
    by (simp add: cut_at_blocks_def block_occurs_def str_Nil str_Cons sublist_code(3))
  then show "sub_style (str ''<style>a</style><style>b</style>'') = new_style @ new_style"
    by (simp add: sub_style_cut)
  show "new_style @ new_style \<noteq> new_style @ str ''<style>b</style>''"
    using new_style_not_block by simp
qed

text \<open>
  C2, amended: every \<^verbatim>\<open><style>...</style>\<close> pair is replaced, from left to right, each pair
  running from an opening tag to the first closing tag behind it (any code points in
  between, line breaks too), by the new stylesheet verbatim; the text in front of, between
  and behind the pairs is copied. Every content is cut at its pairs in some way, and
  whenever it is cut into the blocks and the text \<open>v\<close> behind the last, the result is the
  texts in front of the pairs, each followed by the new stylesheet, and \<open>v\<close>.
\<close>

theorem every_style_block_replaced:
  "(\<exists>blocks v. cut_at_blocks (str ''<style>'') (str ''</style>'') c blocks v) \<and>
   (\<forall>blocks v. cut_at_blocks (str ''<style>'') (str ''</style>'') c blocks v \<longrightarrow>
      sub_style c = concat (map (\<lambda>(pre, body). pre @ new_style) blocks) @ v)"
proof
  show "\<exists>blocks v. cut_at_blocks (str ''<style>'') (str ''</style>'') c blocks v"
    by (rule blocks_decompose) (simp_all add: str_Cons)
  show "\<forall>blocks v. cut_at_blocks (str ''<style>'') (str ''</style>'') c blocks v \<longrightarrow>
      sub_style c = concat (map (\<lambda>(pre, body). pre @ new_style) blocks) @ v"
    by (simp add: sub_style_cut)
qed

text \<open>
  Two pairs, the first with a line break in its body, the second with a broken closing tag
  in front of the closing tag.
\<close>

theorem every_style_block_replaced_witness:
  "cut_at_blocks (str ''<style>'') (str ''</style>'')
     (str ''<head><style>'' @ [97, 10, 98] @ str ''</style><p><style></styl</style></p>'')
     [(str ''<head>'', [97, 10, 98]), (str ''<p>'', str ''</styl'')] (str ''</p>'') \<and>
   sub_style (str ''<head><style>'' @ [97, 10, 98] @ str ''</style><p><style></styl</style></p>'') =
     str ''<head>'' @ new_style @ str ''<p>'' @ new_style @ str ''</p>''"
proof -
  let ?c = "str ''<head><style>'' @ [97, 10, 98] @ str ''</style><p><style></styl</style></p>''"
  have cut: "cut_at_blocks (str ''<style>'') (str ''</style>'') ?c
      [(str ''<head>'', [97, 10, 98]), (str ''<p>'', str ''</styl'')] (str ''</p>'')"
    by (simp add: cut_at_blocks_def block_occurs_def str_Nil str_Cons sublist_code(3))
  with every_style_block_replaced [of ?c]
  have "sub_style ?c =
        concat (map (\<lambda>(pre, body). pre @ new_style)
          [(str ''<head>'', [97, 10, 98]), (str ''<p>'', str ''</styl'')]) @ str ''</p>''"
    by blast
  with cut show ?thesis by simp
qed

subsection \<open>Rules that find nothing\<close>

text \<open>
  The texts that the background pattern matches: the comment and the four \<^verbatim>\<open>div\<close> elements,
  in this order, with any white space, or none, between them.
\<close>

lemma denotes_lits_end: "denotes d (lits w) t \<longleftrightarrow> t = w"
  using denotes_lits [of d w "[]" t] by simp

lemma denotes_spaces:
  "denotes True ((Space, Star) # p) t \<longleftrightarrow>
     (\<exists>ws v. t = ws @ v \<and> (\<forall>x \<in> set ws. is_space x) \<and> denotes True p v)"
  by (simp add: denotes_star_iff del: denotes.simps)

lemma denotes_litsI: "denotes d p v \<Longrightarrow> denotes d (lits w @ p) (w @ v)"
  by (simp add: denotes_lits)

lemma denotes_lits_endI: "denotes d (lits w) w"
  by (simp add: denotes_lits_end)

lemma denotes_spacesI:
  "\<forall>x \<in> set ws. is_space x \<Longrightarrow> denotes True p v \<Longrightarrow> denotes True ((Space, Star) # p) (ws @ v)"
  unfolding denotes_spaces by blast

lemma bg_elements_pattern_lits:
  \<open>bg_elements_pattern =
     lits (str ''<!-- Animated background -->'') @ (Space, Star) #
     lits (str ''<div class="bg-gradient"></div>'') @ (Space, Star) #
     lits (str ''<div class="bg-orb bg-orb-1"></div>'') @ (Space, Star) #
     lits (str ''<div class="bg-orb bg-orb-2"></div>'') @ (Space, Star) #
     lits (str ''<div class="bg-orb bg-orb-3"></div>'')\<close>
  by (simp only: bg_elements_pattern_def append_Cons append_Nil)

lemma bg_elements_language:
  \<open>denotes True bg_elements_pattern t \<longleftrightarrow>
     (\<exists>w1 w2 w3 w4.
        t = str ''<!-- Animated background -->'' @ w1 @
            str ''<div class="bg-gradient"></div>'' @ w2 @
            str ''<div class="bg-orb bg-orb-1"></div>'' @ w3 @
            str ''<div class="bg-orb bg-orb-2"></div>'' @ w4 @
            str ''<div class="bg-orb bg-orb-3"></div>'' \<and>
        (\<forall>x \<in> set w1. is_space x) \<and> (\<forall>x \<in> set w2. is_space x) \<and>
        (\<forall>x \<in> set w3. is_space x) \<and> (\<forall>x \<in> set w4. is_space x))\<close>
proof
  assume "denotes True bg_elements_pattern t"
  then obtain v1 where t: \<open>t = str ''<!-- Animated background -->'' @ v1\<close>
    and d1: \<open>denotes True ((Space, Star) #
      lits (str ''<div class="bg-gradient"></div>'') @ (Space, Star) #
      lits (str ''<div class="bg-orb bg-orb-1"></div>'') @ (Space, Star) #
      lits (str ''<div class="bg-orb bg-orb-2"></div>'') @ (Space, Star) #
      lits (str ''<div class="bg-orb bg-orb-3"></div>'')) v1\<close>
    unfolding bg_elements_pattern_lits denotes_lits by blast
  from d1 obtain w1 v2 where v1: "v1 = w1 @ v2" and w1: "\<forall>x \<in> set w1. is_space x"
    and d2: \<open>denotes True (lits (str ''<div class="bg-gradient"></div>'') @ (Space, Star) #
      lits (str ''<div class="bg-orb bg-orb-1"></div>'') @ (Space, Star) #
      lits (str ''<div class="bg-orb bg-orb-2"></div>'') @ (Space, Star) #
      lits (str ''<div class="bg-orb bg-orb-3"></div>'')) v2\<close>
    unfolding denotes_spaces by blast
  from d2 obtain v3 where v2: \<open>v2 = str ''<div class="bg-gradient"></div>'' @ v3\<close>
    and d3: \<open>denotes True ((Space, Star) #
      lits (str ''<div class="bg-orb bg-orb-1"></div>'') @ (Space, Star) #
      lits (str ''<div class="bg-orb bg-orb-2"></div>'') @ (Space, Star) #
      lits (str ''<div class="bg-orb bg-orb-3"></div>'')) v3\<close>
    unfolding denotes_lits by blast
  from d3 obtain w2 v4 where v3: "v3 = w2 @ v4" and w2: "\<forall>x \<in> set w2. is_space x"
    and d4: \<open>denotes True (lits (str ''<div class="bg-orb bg-orb-1"></div>'') @ (Space, Star) #
      lits (str ''<div class="bg-orb bg-orb-2"></div>'') @ (Space, Star) #
      lits (str ''<div class="bg-orb bg-orb-3"></div>'')) v4\<close>
    unfolding denotes_spaces by blast
  from d4 obtain v5 where v4: \<open>v4 = str ''<div class="bg-orb bg-orb-1"></div>'' @ v5\<close>
    and d5: \<open>denotes True ((Space, Star) #
      lits (str ''<div class="bg-orb bg-orb-2"></div>'') @ (Space, Star) #
      lits (str ''<div class="bg-orb bg-orb-3"></div>'')) v5\<close>
    unfolding denotes_lits by blast
  from d5 obtain w3 v6 where v5: "v5 = w3 @ v6" and w3: "\<forall>x \<in> set w3. is_space x"
    and d6: \<open>denotes True (lits (str ''<div class="bg-orb bg-orb-2"></div>'') @ (Space, Star) #
      lits (str ''<div class="bg-orb bg-orb-3"></div>'')) v6\<close>
    unfolding denotes_spaces by blast
  from d6 obtain v7 where v6: \<open>v6 = str ''<div class="bg-orb bg-orb-2"></div>'' @ v7\<close>
    and d7: \<open>denotes True ((Space, Star) #
      lits (str ''<div class="bg-orb bg-orb-3"></div>'')) v7\<close>
    unfolding denotes_lits by blast
  from d7 obtain w4 where v7: \<open>v7 = w4 @ str ''<div class="bg-orb bg-orb-3"></div>''\<close>
    and w4: "\<forall>x \<in> set w4. is_space x"
    unfolding denotes_spaces denotes_lits_end by blast
  from t v1 v2 v3 v4 v5 v6 v7 w1 w2 w3 w4
  show \<open>\<exists>w1 w2 w3 w4.
        t = str ''<!-- Animated background -->'' @ w1 @
            str ''<div class="bg-gradient"></div>'' @ w2 @
            str ''<div class="bg-orb bg-orb-1"></div>'' @ w3 @
            str ''<div class="bg-orb bg-orb-2"></div>'' @ w4 @
            str ''<div class="bg-orb bg-orb-3"></div>'' \<and>
        (\<forall>x \<in> set w1. is_space x) \<and> (\<forall>x \<in> set w2. is_space x) \<and>
        (\<forall>x \<in> set w3. is_space x) \<and> (\<forall>x \<in> set w4. is_space x)\<close>
    by blast
next
  assume \<open>\<exists>w1 w2 w3 w4.
        t = str ''<!-- Animated background -->'' @ w1 @
            str ''<div class="bg-gradient"></div>'' @ w2 @
            str ''<div class="bg-orb bg-orb-1"></div>'' @ w3 @
            str ''<div class="bg-orb bg-orb-2"></div>'' @ w4 @
            str ''<div class="bg-orb bg-orb-3"></div>'' \<and>
        (\<forall>x \<in> set w1. is_space x) \<and> (\<forall>x \<in> set w2. is_space x) \<and>
        (\<forall>x \<in> set w3. is_space x) \<and> (\<forall>x \<in> set w4. is_space x)\<close>
  then obtain w1 w2 w3 w4 where
    t: \<open>t = str ''<!-- Animated background -->'' @ w1 @
            str ''<div class="bg-gradient"></div>'' @ w2 @
            str ''<div class="bg-orb bg-orb-1"></div>'' @ w3 @
            str ''<div class="bg-orb bg-orb-2"></div>'' @ w4 @
            str ''<div class="bg-orb bg-orb-3"></div>''\<close>
    and w: "\<forall>x \<in> set w1. is_space x" "\<forall>x \<in> set w2. is_space x"
      "\<forall>x \<in> set w3. is_space x" "\<forall>x \<in> set w4. is_space x"
    by blast
  show "denotes True bg_elements_pattern t"
    unfolding bg_elements_pattern_lits t
    by (intro denotes_litsI denotes_spacesI denotes_lits_endI w)
qed

lemma footer_absent: "\<not> sublist (str ''<footer>'') c \<Longrightarrow> \<not> sublist (str ''    <footer>'') c"
  using footer_in_marker sublist_trans by blast

text \<open>
  C7. A rule whose matcher does not occur in the content returns the content as it is,
  and nothing is raised: the footer rule when the content holds no \<^verbatim>\<open><footer>\<close> (and already
  when it holds no \<^verbatim>\<open><footer>\<close> behind four spaces), the stylesheet rule when no \<^verbatim>\<open><style>\<close> of the
  content is followed by a \<^verbatim>\<open></style>\<close>, and the rule that removes the animated background
  when no part of the content is in the language of its pattern (the comment and the four
  elements with white space between them).
\<close>

theorem unmatched_rule_changes_nothing:
  "(\<not> sublist (str ''<footer>'') c \<longrightarrow> patch_index c = c) \<and>
   (\<not> sublist (str ''    <footer>'') c \<longrightarrow> patch_index c = c) \<and>
   (\<not> block_occurs (str ''<style>'') (str ''</style>'') c \<longrightarrow> sub_style c = c) \<and>
   (\<not> matcher_occurs True bg_elements_pattern c \<longrightarrow> remove_bg_elements c = c)"
  by (simp add: patch_index_unchanged footer_absent sub_style_unchanged
      remove_bg_elements_def re_sub_unchanged)

text \<open>The content \<^verbatim>\<open><p>hi</p>\<close>, in which none of the three matchers occurs.\<close>

theorem unmatched_rule_changes_nothing_witness:
  "\<not> sublist (str ''<footer>'') (str ''<p>hi</p>'') \<and>
   \<not> sublist (str ''    <footer>'') (str ''<p>hi</p>'') \<and>
   \<not> block_occurs (str ''<style>'') (str ''</style>'') (str ''<p>hi</p>'') \<and>
   \<not> matcher_occurs True bg_elements_pattern (str ''<p>hi</p>'') \<and>
   patch_index (str ''<p>hi</p>'') = str ''<p>hi</p>'' \<and>
   sub_style (str ''<p>hi</p>'') = str ''<p>hi</p>'' \<and>
   remove_bg_elements (str ''<p>hi</p>'') = str ''<p>hi</p>''"
proof -
  have a: "\<not> sublist (str ''<footer>'') (str ''<p>hi</p>'')"
    and b: "\<not> sublist (str ''    <footer>'') (str ''<p>hi</p>'')"
    by (simp_all add: str_Nil str_Cons sublist_code(3))
  have c: "\<not> block_occurs (str ''<style>'') (str ''</style>'') (str ''<p>hi</p>'')"
    by (simp add: block_occurs_def str_Nil str_Cons sublist_code(3))
  have d: "\<not> matcher_occurs True bg_elements_pattern (str ''<p>hi</p>'')"
    by (simp add: matcher_occurs_def bg_elements_pattern_def lits_def str_Nil str_Cons)
  from unmatched_rule_changes_nothing [of "str ''<p>hi</p>''"] a b c d show ?thesis
    by blast
qed

subsection \<open>The files\<close>







end
